theory Spec2Isabelle
  imports Complex_Main
begin

section \<open>Python values, errors and output\<close>

text \<open>
  The notebooks are Python. Tokens are Python strings, vocabulary ids are the non-negative
  integers the tokenizer hands out, positions and counts are Python integers (\<open>int\<close>),
  and probabilities and logits are taken over the reals: the floating-point rounding of
  torch and numpy is not part of the model.
\<close>

type_synonym token = string

datatype error =
    IndexError
  | ValueError
  | LogOfNonPositive

text \<open>
  \<open>LogOfNonPositive\<close> stands for \<open>np.log10\<close> applied to a value that is not strictly
  positive. numpy answers \<open>-inf\<close> or \<open>nan\<close> with a RuntimeWarning there; the reals have no
  such values (and HOL's own \<open>log 10 0\<close> is \<open>0\<close>), so the model stops with this outcome.
\<close>

datatype event =
    Print_text string
  | Print_tokens "token list"
  | Print_processing "token list"
  | Print_word token real real
  | Print_raw_forward real
  | Print_raw_backward real
  | Print_average real
  | Print_value real
  | Print_top_tokens "token list"
  | Print_top_values "real list"

text \<open>
  Each \<open>print\<close> of the source is one event; a formatted string keeps the values it
  formats as the arguments of the event.
\<close>

definition BOS_TOKEN :: token where
  "BOS_TOKEN = ''[CLS]''"

definition EOS_TOKEN :: token where
  "EOS_TOKEN = ''[SEP]''"

definition MASK_TOKEN :: token where
  "MASK_TOKEN = ''[MASK]''"

definition MASK :: token where
  \<comment> \<open>The constant of the word category notebook.\<close>
  "MASK = ''[MASK]''"

definition direction_message :: string where
  "direction_message =
     ''Direction can only be '' @ [CHR 0x27] @ ''forward'' @ [CHR 0x27] @ '' or ''
       @ [CHR 0x27] @ ''backwards'' @ [CHR 0x27]"

subsection \<open>Indexing and slices\<close>

definition py_index :: "'a list \<Rightarrow> int \<Rightarrow> error + 'a" where
  \<comment> \<open>\<open>xs[i]\<close>: a negative index counts from the end, anything outside raises.\<close>
  "py_index xs i =
     (if 0 \<le> i \<and> i < int (length xs) then Inr (xs ! nat i)
      else if - int (length xs) \<le> i \<and> i < 0 then Inr (xs ! nat (int (length xs) + i))
      else Inl IndexError)"

definition slice_bound :: "nat \<Rightarrow> int \<Rightarrow> nat" where
  \<comment> \<open>A slice bound is moved from the end when negative and clipped to \<open>0..n\<close>.\<close>
  "slice_bound n i = (if i < 0 then nat (max 0 (int n + i)) else min n (nat i))"

definition slice_from :: "'a list \<Rightarrow> int \<Rightarrow> 'a list" where
  \<comment> \<open>\<open>xs[start:]\<close>\<close>
  "slice_from xs start = drop (slice_bound (length xs) start) xs"

definition slice_assign :: "'a list \<Rightarrow> int \<Rightarrow> int \<Rightarrow> 'a list \<Rightarrow> 'a list" where
  \<comment> \<open>\<open>xs[start:stop] = ys\<close>: the slice is replaced, whatever the length of \<open>ys\<close>;
      an upper bound below the lower one is raised to it.\<close>
  "slice_assign xs start stop ys =
     (let lo = slice_bound (length xs) start;
          hi = max lo (slice_bound (length xs) stop)
      in take lo xs @ ys @ drop hi xs)"

definition py_range :: "int \<Rightarrow> int \<Rightarrow> int list" where
  \<comment> \<open>\<open>range(a, b)\<close>\<close>
  "py_range a b = [a..b - 1]"

subsection \<open>The interpreter state\<close>

text \<open>
  Python lists are objects: a variable holds a reference, \<open>xs[:]\<close> makes a new object, and
  \<open>insert\<close>, \<open>append\<close> and slice assignment change the object in place. The lists of
  tokens live in \<open>heap\<close>, a reference is a position in it, and a new list goes to the end.
  \<open>stdout\<close> collects what is printed. \<open>model_calls\<close> records the id sequences the language
  model was evaluated on; the program never reads it.

  The functions are defined in notebook cells and run in the notebook's IPython kernel.
  There the name \<open>exit\<close> is bound to the shell's autocall object, not to the builtin of
  Python's \<open>site\<close> module: calling it asks the shell to exit, which sets the flag
  \<open>exit_now\<close> for the kernel to act on once the cell has run, and returns. It raises
  nothing, so the statements after \<open>exit()\<close> are executed.
\<close>

type_synonym ref = nat

record state =
  heap :: "token list list"
  stdout :: "event list"
  model_calls :: "nat list list"
  exit_now :: bool

definition new_list :: "token list \<Rightarrow> state \<Rightarrow> ref \<times> state" where
  "new_list xs s = (length (heap s), s\<lparr>heap := heap s @ [xs]\<rparr>)"

definition deref :: "state \<Rightarrow> ref \<Rightarrow> token list" where
  "deref s r = heap s ! r"

definition store :: "ref \<Rightarrow> token list \<Rightarrow> state \<Rightarrow> state" where
  "store r xs s = s\<lparr>heap := (heap s)[r := xs]\<rparr>"

definition print :: "event \<Rightarrow> state \<Rightarrow> state" where
  "print e s = s\<lparr>stdout := stdout s @ [e]\<rparr>"

definition ask_exit :: "state \<Rightarrow> state" where
  \<comment> \<open>\<open>exit()\<close>\<close>
  "ask_exit s = s\<lparr>exit_now := True\<rparr>"

definition list_copy :: "ref \<Rightarrow> state \<Rightarrow> ref \<times> state" where
  \<comment> \<open>\<open>xs[:]\<close>\<close>
  "list_copy r s = new_list (deref s r) s"

definition list_insert_front :: "ref \<Rightarrow> token \<Rightarrow> state \<Rightarrow> state" where
  \<comment> \<open>\<open>xs.insert(0, t)\<close>\<close>
  "list_insert_front r t s = store r (t # deref s r) s"

definition list_append :: "ref \<Rightarrow> token \<Rightarrow> state \<Rightarrow> state" where
  \<comment> \<open>\<open>xs.append(t)\<close>\<close>
  "list_append r t s = store r (deref s r @ [t]) s"

definition list_slice_assign :: "ref \<Rightarrow> int \<Rightarrow> int \<Rightarrow> token list \<Rightarrow> state \<Rightarrow> state" where
  \<comment> \<open>\<open>xs[start:stop] = ys\<close>\<close>
  "list_slice_assign r start stop ys s = store r (slice_assign (deref s r) start stop ys) s"

section \<open>The pretrained model and its tokenizer\<close>

text \<open>
  The tokenizer and the masked language model come from the transformers library and are
  loaded from pretrained weights; the notebooks only call them. They are parameters here.
  \<open>model B ids\<close> is the prediction head's output for the one sentence of the batch: one
  row of logits per input position.
\<close>

record bert =
  tokenize :: "string \<Rightarrow> token list"
  token_to_id :: "token \<Rightarrow> nat"
  id_to_token :: "nat \<Rightarrow> token"
  encode :: "string \<Rightarrow> nat list"
  model :: "nat list \<Rightarrow> real list list"

definition convert_tokens_to_ids :: "bert \<Rightarrow> token list \<Rightarrow> nat list" where
  "convert_tokens_to_ids B toks = map (token_to_id B) toks"

definition convert_ids_to_tokens :: "bert \<Rightarrow> nat list \<Rightarrow> token list" where
  "convert_ids_to_tokens B ids = map (id_to_token B) ids"

definition run_model :: "bert \<Rightarrow> nat list \<Rightarrow> state \<Rightarrow> real list list \<times> state" where
  \<comment> \<open>\<open>model(torch.tensor([ids]))[0][0]\<close>, with the call recorded\<close>
  "run_model B ids s = (model B ids, s\<lparr>model_calls := model_calls s @ [ids]\<rparr>)"

section \<open>numpy and torch primitives\<close>

definition softmax_denominator :: "real list \<Rightarrow> real" where
  "softmax_denominator xs = sum_list (map exp xs)"

definition softmax :: "real list \<Rightarrow> real list" where
  \<comment> \<open>\<open>torch.nn.Softmax(dim=0)\<close> on a vector\<close>
  "softmax xs = map (\<lambda>x. exp x / softmax_denominator xs) xs"

definition np_log10 :: "real \<Rightarrow> error + real" where
  "np_log10 x = (if 0 < x then Inr (log 10 x) else Inl LogOfNonPositive)"

definition argsort :: "real list \<Rightarrow> nat list" where
  \<comment> \<open>\<open>np.argsort\<close>: the positions of \<open>xs\<close> in ascending order of their values. numpy
      leaves the order of equal values open; here the earlier position comes first.\<close>
  "argsort xs = sort_key (\<lambda>i. xs ! i) [0..<length xs]"

definition argpartition :: "real list \<Rightarrow> int \<Rightarrow> error + nat list" where
  \<comment> \<open>\<open>np.argpartition(xs, kth)\<close>: a permutation of the positions with the \<open>kth\<close> smallest
      value at place \<open>kth\<close>, nothing larger before it and nothing smaller after it; a
      \<open>kth\<close> outside an array that has elements raises, and an empty array gives the
      empty permutation. numpy leaves the order inside the two parts open; the fully
      sorted permutation is one of the results it allows.\<close>
  "argpartition xs kth =
     (if xs = [] \<or> (- int (length xs) \<le> kth \<and> kth < int (length xs)) then Inr (argsort xs)
      else Inl ValueError)"

definition take_indices :: "'a list \<Rightarrow> nat list \<Rightarrow> 'a list" where
  \<comment> \<open>\<open>xs[idx]\<close> with an array of positions\<close>
  "take_indices xs idx = map (\<lambda>i. xs ! i) idx"

definition np_where_gt :: "real list \<Rightarrow> real \<Rightarrow> nat list" where
  \<comment> \<open>\<open>np.where(xs > t)[0]\<close>\<close>
  "np_where_gt xs t = filter (\<lambda>i. t < xs ! i) [0..<length xs]"

section \<open>Sentence probability notebook\<close>

subsection \<open>\<open>print_top_predictions\<close>\<close>

definition top_sorted_indexes :: "real list \<Rightarrow> int \<Rightarrow> error + nat list" where
  \<comment> \<open>The two lines shared by \<open>print_top_predictions\<close> and \<open>get_top_predictions\<close>:
      \<open>top_indexes = np.argpartition(probs, -k)[-k:]\<close> and
      \<open>sorted_indexes = top_indexes[np.argsort(-probs[top_indexes])]\<close>.\<close>
  "top_sorted_indexes probs k =
     (case argpartition probs (- k) of
        Inl e \<Rightarrow> Inl e
      | Inr part \<Rightarrow>
          (let top_indexes = slice_from part (- k)
           in Inr (take_indices top_indexes
                     (argsort (map uminus (take_indices probs top_indexes))))))"

definition print_top_predictions ::
  "bert \<Rightarrow> real list \<Rightarrow> int \<Rightarrow> state \<Rightarrow> (error + unit) \<times> state" where
  "print_top_predictions B probs k s =
     (case top_sorted_indexes probs k of
        Inl e \<Rightarrow> (Inl e, s)
      | Inr sorted_indexes \<Rightarrow>
          (let top_tokens = convert_ids_to_tokens B sorted_indexes;
               s1 = print (Print_top_tokens top_tokens) s;
               s2 = print (Print_top_values (take_indices probs sorted_indexes)) s1
           in (Inr (), s2)))"

subsection \<open>\<open>get_directional_prob\<close>\<close>

definition mask_direction :: "ref \<Rightarrow> ref \<Rightarrow> int \<Rightarrow> string \<Rightarrow> state \<Rightarrow> state" where
  \<comment> \<open>The \<open>if\<close>/\<open>elif\<close>/\<open>else\<close> over \<open>direction\<close>: \<open>[MASK_TOKEN for j in range(m)]\<close> is
      \<open>m\<close> masks, none when \<open>m\<close> is negative. The \<open>else\<close> branch prints, calls \<open>exit()\<close>
      and, as that call returns, leaves \<open>current_tokens\<close> as it was copied.\<close>
  "mask_direction tokenized_input current_tokens i direction s =
     (if direction = ''backwards'' then
        list_slice_assign current_tokens 1 (i + 1) (replicate (nat i) MASK_TOKEN) s
      else if direction = ''forward'' then
        list_slice_assign current_tokens i (- 1)
          (replicate (nat (int (length (deref s tokenized_input)) - 1 - i)) MASK_TOKEN) s
      else ask_exit (print (Print_text direction_message) s))"

definition get_directional_prob ::
  "bert \<Rightarrow> (real list \<Rightarrow> real list) \<Rightarrow> ref \<Rightarrow> int \<Rightarrow> string \<Rightarrow> bool \<Rightarrow> state
     \<Rightarrow> (error + real list) \<times> state" where
  "get_directional_prob B sm tokenized_input i direction verbose s0 =
     (let (current_tokens, s1) = list_copy tokenized_input s0;
          s2 = mask_direction tokenized_input current_tokens i direction s1;
          s3 = (if verbose
                then print (Print_tokens (deref s2 current_tokens)) (print (Print_text []) s2)
                else s2);
          masked_input = convert_tokens_to_ids B (deref s3 current_tokens);
          (predictions, s4) = run_model B masked_input s3
      in case py_index predictions i of
           Inl e \<Rightarrow> (Inl e, s4)
         | Inr logits \<Rightarrow>
             (let probs = sm logits
              in if verbose then
                   (case print_top_predictions B probs 5 s4 of
                      (Inl e, s5) \<Rightarrow> (Inl e, s5)
                    | (Inr _, s5) \<Rightarrow> (Inr probs, s5))
                 else (Inr probs, s4)))"

subsection \<open>\<open>get_sentence_prob\<close>\<close>

definition score_position ::
  "bert \<Rightarrow> (real list \<Rightarrow> real list) \<Rightarrow> ref \<Rightarrow> nat list \<Rightarrow> bool \<Rightarrow> int \<Rightarrow> state
     \<Rightarrow> (error + real \<times> real) \<times> state" where
  \<comment> \<open>The body of the loop over \<open>i\<close>, up to the two log-probabilities of position \<open>i\<close>.\<close>
  "score_position B sm tokenized_input ids_input verbose i s0 =
     (case get_directional_prob B sm tokenized_input i ''forward'' verbose s0 of
        (Inl e, s1) \<Rightarrow> (Inl e, s1)
      | (Inr probs_forward, s1) \<Rightarrow>
     (case get_directional_prob B sm tokenized_input i ''backwards'' verbose s1 of
        (Inl e, s2) \<Rightarrow> (Inl e, s2)
      | (Inr probs_backwards, s2) \<Rightarrow>
     (case py_index ids_input i of
        Inl e \<Rightarrow> (Inl e, s2)
      | Inr tok_id \<Rightarrow>
     (case py_index probs_forward (int tok_id) of
        Inl e \<Rightarrow> (Inl e, s2)
      | Inr prob_forward \<Rightarrow>
     (case np_log10 prob_forward of
        Inl e \<Rightarrow> (Inl e, s2)
      | Inr log_prob_forward \<Rightarrow>
     (case py_index probs_backwards (int tok_id) of
        Inl e \<Rightarrow> (Inl e, s2)
      | Inr prob_backwards \<Rightarrow>
     (case np_log10 prob_backwards of
        Inl e \<Rightarrow> (Inl e, s2)
      | Inr log_prob_backwards \<Rightarrow>
          (if verbose then
             (case py_index (deref s2 tokenized_input) i of
                Inl e \<Rightarrow> (Inl e, s2)
              | Inr word \<Rightarrow>
                  (Inr (log_prob_forward, log_prob_backwards),
                   print (Print_word word log_prob_forward log_prob_backwards) s2))
           else (Inr (log_prob_forward, log_prob_backwards), s2)))))))))"

fun accumulate ::
  "bert \<Rightarrow> (real list \<Rightarrow> real list) \<Rightarrow> ref \<Rightarrow> nat list \<Rightarrow> bool \<Rightarrow> int list \<Rightarrow> real \<times> real
     \<Rightarrow> state \<Rightarrow> (error + real \<times> real) \<times> state" where
  \<comment> \<open>The \<open>for\<close> loop, with the two running sums as the accumulator.\<close>
  "accumulate B sm tokenized_input ids_input verbose [] acc s = (Inr acc, s)"
| "accumulate B sm tokenized_input ids_input verbose (i # rest) acc s =
     (case score_position B sm tokenized_input ids_input verbose i s of
        (Inl e, s') \<Rightarrow> (Inl e, s')
      | (Inr (log_prob_forward, log_prob_backwards), s') \<Rightarrow>
          accumulate B sm tokenized_input ids_input verbose rest
            (fst acc + log_prob_forward, snd acc + log_prob_backwards) s')"

definition preprocess :: "bert \<Rightarrow> string \<Rightarrow> state \<Rightarrow> (error + ref) \<times> state" where
  \<comment> \<open>Tokenize and add the special tokens in place.\<close>
  "preprocess B sentence s0 =
     (let (tokenized_input, s1) = new_list (tokenize B sentence) s0
      in case py_index (deref s1 tokenized_input) 0 of
           Inl e \<Rightarrow> (Inl e, s1)
         | Inr first_token \<Rightarrow>
             (let s2 = (if first_token \<noteq> BOS_TOKEN
                        then list_insert_front tokenized_input BOS_TOKEN s1 else s1)
              in case py_index (deref s2 tokenized_input) (- 1) of
                   Inl e \<Rightarrow> (Inl e, s2)
                 | Inr last_token \<Rightarrow>
                     (Inr tokenized_input,
                      if last_token \<noteq> EOS_TOKEN
                      then list_append tokenized_input EOS_TOKEN s2 else s2)))"

definition sentence_log_probs ::
  "bert \<Rightarrow> ref \<Rightarrow> bool \<Rightarrow> state \<Rightarrow> (error + real \<times> real) \<times> state" where
  \<comment> \<open>From \<open>sent_len\<close> to the end of the loop: the pair
      \<open>(log_sent_prob_forward, log_sent_prob_backwards)\<close>.\<close>
  "sentence_log_probs B tokenized_input verbose s0 =
     (let ids_input = convert_tokens_to_ids B (deref s0 tokenized_input);
          s1 = print (Print_processing (deref s0 tokenized_input)) s0;
          sm = softmax
      in accumulate B sm tokenized_input ids_input verbose
           (py_range 1 (int (length (deref s1 tokenized_input)) - 1)) (0, 0) s1)"

definition get_sentence_prob :: "bert \<Rightarrow> string \<Rightarrow> bool \<Rightarrow> state \<Rightarrow> (error + real) \<times> state" where
  "get_sentence_prob B sentence verbose s0 =
     (case preprocess B sentence s0 of
        (Inl e, s1) \<Rightarrow> (Inl e, s1)
      | (Inr tokenized_input, s1) \<Rightarrow>
     (case sentence_log_probs B tokenized_input verbose s1 of
        (Inl e, s2) \<Rightarrow> (Inl e, s2)
      | (Inr (log_sent_prob_forward, log_sent_prob_backwards), s2) \<Rightarrow>
          (let log_geom_mean_sent_prob = 0.5 * (log_sent_prob_forward + log_sent_prob_backwards);
               s3 = (if verbose
                     then print (Print_average log_geom_mean_sent_prob)
                            (print (Print_raw_backward log_sent_prob_backwards)
                               (print (Print_raw_forward log_sent_prob_forward) s2))
                     else s2);
               sentence_prob = 10 powr log_geom_mean_sent_prob
           in (Inr sentence_prob, print (Print_value sentence_prob) s3))))"

section \<open>Word category notebook\<close>

subsection \<open>\<open>get_top_predictions\<close>\<close>

definition get_top_predictions ::
  "bert \<Rightarrow> real list \<Rightarrow> int \<Rightarrow> real \<Rightarrow> state \<Rightarrow> (error + token list \<times> token list) \<times> state" where
  "get_top_predictions B probs k thres s =
     (case top_sorted_indexes probs k of
        Inl e \<Rightarrow> (Inl e, s)
      | Inr sorted_indexes \<Rightarrow>
          (let top_tokens = convert_ids_to_tokens B sorted_indexes;
               s1 = print (Print_top_tokens top_tokens) s;
               s2 = print (Print_top_values (take_indices probs sorted_indexes)) s1;
               high_indexes = np_where_gt probs thres;
               high_tokens = convert_ids_to_tokens B high_indexes
           in (Inr (top_tokens, high_tokens), s2)))"

subsection \<open>Tokenizing and padding the sentences\<close>

definition list_index :: "nat list \<Rightarrow> nat \<Rightarrow> error + nat" where
  \<comment> \<open>\<open>xs.index(v)\<close>: the first position holding \<open>v\<close>, or ValueError.\<close>
  "list_index xs v =
     (if v \<in> set xs then Inr (length (takeWhile (\<lambda>x. x \<noteq> v) xs)) else Inl ValueError)"

fun mask_positions_of :: "nat list list \<Rightarrow> nat \<Rightarrow> error + nat list" where
  \<comment> \<open>\<open>[s.index(tok_MASK) for s in input_ids]\<close>\<close>
  "mask_positions_of [] tok_MASK = Inr []"
| "mask_positions_of (s # rest) tok_MASK =
     (case list_index s tok_MASK of
        Inl e \<Rightarrow> Inl e
      | Inr p \<Rightarrow>
          (case mask_positions_of rest tok_MASK of
             Inl e \<Rightarrow> Inl e
           | Inr ps \<Rightarrow> Inr (p # ps)))"

definition py_max :: "nat list \<Rightarrow> error + nat" where
  \<comment> \<open>\<open>max(...)\<close> of a sequence: ValueError when it is empty.\<close>
  "py_max xs = (case xs of [] \<Rightarrow> Inl ValueError | x # rest \<Rightarrow> Inr (fold max rest x))"

record padded_batch =
  input_ids :: "nat list list"
  mask_positions :: "nat list"
  max_len :: nat
  padded_input :: "nat list list"
  attention_mask :: "nat list list"

definition pad_sentences :: "bert \<Rightarrow> string list \<Rightarrow> error + padded_batch" where
  \<comment> \<open>The cell from \<open># tokenize input\<close> to the attention mask.\<close>
  "pad_sentences B sentences =
     (let ids = map (encode B) sentences;
          tok_MASK = token_to_id B MASK
      in case mask_positions_of ids tok_MASK of
           Inl e \<Rightarrow> Inl e
         | Inr positions \<Rightarrow>
             (case py_max (map length ids) of
                Inl e \<Rightarrow> Inl e
              | Inr m \<Rightarrow>
                  (let padded = map (\<lambda>i. i @ replicate (m - length i) 0) ids
                   in Inr \<lparr>input_ids = ids, mask_positions = positions, max_len = m,
                           padded_input = padded,
                           attention_mask =
                             map (map (\<lambda>x. if x \<noteq> 0 then 1 else 0)) padded\<rparr>)))"

section \<open>Notions used in the statements\<close>

definition masked_copy :: "string \<Rightarrow> token list \<Rightarrow> int \<Rightarrow> token list" where
  \<comment> \<open>What \<open>current_tokens\<close> holds after the \<open>if\<close> over \<open>direction\<close>, as a function of
      what \<open>tokenized_input\<close> holds.\<close>
  "masked_copy direction toks i =
     (if direction = ''backwards'' then
        slice_assign toks 1 (i + 1) (replicate (nat i) MASK_TOKEN)
      else if direction = ''forward'' then
        slice_assign toks i (- 1) (replicate (nat (int (length toks) - 1 - i)) MASK_TOKEN)
      else toks)"

definition forward_masked :: "token list \<Rightarrow> nat \<Rightarrow> token list" where
  \<comment> \<open>Position \<open>i\<close> and everything after it is masked, up to the last token, which stays.\<close>
  "forward_masked toks i =
     map (\<lambda>j. if i \<le> j \<and> j + 1 < length toks then MASK_TOKEN else toks ! j) [0..<length toks]"

definition backwards_masked :: "token list \<Rightarrow> nat \<Rightarrow> token list" where
  \<comment> \<open>Position \<open>i\<close> and everything before it is masked, down to the first token, which stays.\<close>
  "backwards_masked toks i =
     map (\<lambda>j. if 1 \<le> j \<and> j \<le> i then MASK_TOKEN else toks ! j) [0..<length toks]"

definition single_masked :: "token list \<Rightarrow> nat \<Rightarrow> token list" where
  \<comment> \<open>Only position \<open>i\<close> is masked.\<close>
  "single_masked toks i = toks[i := MASK_TOKEN]"

definition token_prob :: "bert \<Rightarrow> token list \<Rightarrow> token list \<Rightarrow> nat \<Rightarrow> real" where
  \<comment> \<open>The probability the model gives to the token \<open>toks ! i\<close> at position \<open>i\<close> when it
      is shown \<open>masked\<close>.\<close>
  "token_prob B masked toks i =
     softmax (model B (convert_tokens_to_ids B masked) ! i) ! token_to_id B (toks ! i)"

definition bert_ok :: "bert \<Rightarrow> nat \<Rightarrow> bool" where
  \<comment> \<open>The shape of a masked language model with a vocabulary of \<open>V\<close> entries: one row of
      \<open>V\<close> logits for every input position, and every token id below \<open>V\<close>.\<close>
  "bert_ok B V \<longleftrightarrow>
     (\<forall>ids. length (model B ids) = length ids \<and> (\<forall>row \<in> set (model B ids). length row = V))
     \<and> (\<forall>t. token_to_id B t < V)"

definition with_special_tokens :: "token list \<Rightarrow> token list" where
  \<comment> \<open>What \<open>tokenized_input\<close> holds once the special tokens are in place, for a
      tokenization that is not empty.\<close>
  "with_special_tokens toks =
     (let t1 = (if hd toks \<noteq> BOS_TOKEN then BOS_TOKEN # toks else toks)
      in if last t1 \<noteq> EOS_TOKEN then t1 @ [EOS_TOKEN] else t1)"

definition non_increasing :: "real list \<Rightarrow> bool" where
  "non_increasing xs \<longleftrightarrow> sorted (rev xs)"

subsection \<open>A small instance\<close>

text \<open>
  A tokenizer that splits at blanks, a vocabulary of eight entries and a model whose
  logits are all zero, to run the definitions on.
\<close>

fun split_words :: "string \<Rightarrow> string \<Rightarrow> string list" where
  "split_words w [] = (if w = [] then [] else [w])"
| "split_words w (c # cs) =
     (if c = CHR '' '' then (if w = [] then split_words [] cs else w # split_words [] cs)
      else split_words (w @ [c]) cs)"

definition toy_vocab :: "token list" where
  "toy_vocab =
     [''[PAD]'', ''[UNK]'', ''[CLS]'', ''[SEP]'', ''[MASK]'', ''kids'', ''eat'', ''candy'']"

definition toy_token_to_id :: "token \<Rightarrow> nat" where
  "toy_token_to_id t =
     (if t \<in> set toy_vocab then length (takeWhile (\<lambda>x. x \<noteq> t) toy_vocab) else 1)"

definition toy_bert :: bert where
  "toy_bert =
     \<lparr>tokenize = split_words [],
      token_to_id = toy_token_to_id,
      id_to_token = (\<lambda>i. if i < length toy_vocab then toy_vocab ! i else ''[UNK]''),
      encode = (\<lambda>s. 2 # map toy_token_to_id (split_words [] s) @ [3]),
      model = (\<lambda>ids. map (\<lambda>_. replicate 8 0) ids)\<rparr>"

definition toy_batch :: padded_batch where
  "toy_batch =
     \<lparr>input_ids = [[2, 5, 4, 3], [2, 5, 6, 4, 7, 3]], mask_positions = [2, 3], max_len = 6,
      padded_input = [[2, 5, 4, 3, 0, 0], [2, 5, 6, 4, 7, 3]],
      attention_mask = [[1, 1, 1, 1, 0, 0], [1, 1, 1, 1, 1, 1]]\<rparr>"

definition empty_state :: state where
  "empty_state = \<lparr>heap = [], stdout = [], model_calls = [], exit_now = False\<rparr>"

definition kids_state :: state where
  "kids_state =
     \<lparr>heap = [[''[CLS]'', ''kids'', ''eat'', ''[SEP]'']], stdout = [], model_calls = [],
      exit_now = False\<rparr>"

section \<open>Slices and ranges\<close>

lemma slice_assign_forward:
  assumes "1 \<le> i" "i + 1 < length toks"
  shows "slice_assign toks (int i) (- 1) (replicate (length toks - 1 - i) M)
      = map (\<lambda>j. if i \<le> j \<and> j + 1 < length toks then M else toks ! j) [0..<length toks]"
    (is "?l = ?r")
proof -
  have a: "slice_bound (length toks) (int i) = i" using assms by (simp add: slice_bound_def)
  have b: "slice_bound (length toks) (- 1) = length toks - 1" using assms by (simp add: slice_bound_def nat_diff_distrib)
  have d: "max i (length toks - 1) = length toks - 1" using assms by simp
  have l: "?l = take i toks @ replicate (length toks - 1 - i) M @ drop (length toks - 1) toks"
    unfolding slice_assign_def Let_def a b d ..
  show ?thesis
  proof (rule nth_equalityI)
    show "length ?l = length ?r" using assms unfolding l by simp
  next
    fix j assume "j < length ?l"
    then have j: "j < length toks" using assms unfolding l by simp
    then show "?l ! j = ?r ! j" using assms unfolding l
      by (auto simp: nth_append intro!: arg_cong[where f="nth toks"])
  qed
qed

lemma slice_assign_backwards:
  assumes "1 \<le> i" "i + 1 < length toks"
  shows "slice_assign toks 1 (int i + 1) (replicate i M)
      = map (\<lambda>j. if 1 \<le> j \<and> j \<le> i then M else toks ! j) [0..<length toks]"
    (is "?l = ?r")
proof -
  have a: "slice_bound (length toks) 1 = 1" using assms by (simp add: slice_bound_def)
  have b: "slice_bound (length toks) (int i + 1) = i + 1" using assms by (simp add: slice_bound_def nat_add_distrib)
  have d: "max 1 (i + 1) = i + 1" using assms by simp
  have l: "?l = take 1 toks @ replicate i M @ drop (i + 1) toks"
    unfolding slice_assign_def Let_def a b d ..
  show ?thesis
  proof (rule nth_equalityI)
    show "length ?l = length ?r" using assms unfolding l by simp
  next
    fix j assume "j < length ?l"
    then have j: "j < length toks" using assms unfolding l by simp
    then show "?l ! j = ?r ! j" using assms unfolding l
      by (auto simp: nth_append)
  qed
qed

lemma upto_map_int: "[int a..int b - 1] = map int [a..<b]"
proof (induction b)
  case 0 then show ?case by simp
next
  case (Suc b)
  show ?case
  proof (cases "a \<le> b")
    case True
    then have "[int a..int (Suc b) - 1] = [int a..int b - 1] @ [int b]"
      using upto_rec2[of "int a" "int b"] by simp
    then show ?thesis using Suc True by simp
  next
    case False then show ?thesis by simp
  qed
qed

lemma py_range_nat: "py_range 1 (int n - 1) = map int [1..<n - 1]"
proof (cases "1 \<le> n")
  case True
  then show ?thesis using upto_map_int[of 1 "n - 1"] by (simp add: py_range_def of_nat_diff)
next
  case False
  then show ?thesis by (simp add: py_range_def)
qed


lemma masked_copy_forward:
  assumes "1 \<le> i" "i + 1 < length toks"
  shows "masked_copy ''forward'' toks (int i) = forward_masked toks i"
proof -
  have "nat (int (length toks) - 1 - int i) = length toks - 1 - i" using assms by linarith
  then show ?thesis
    using slice_assign_forward[OF assms, of MASK_TOKEN]
    by (simp add: masked_copy_def forward_masked_def)
qed

lemma masked_copy_backwards:
  assumes "1 \<le> i" "i + 1 < length toks"
  shows "masked_copy ''backwards'' toks (int i) = backwards_masked toks i"
  using slice_assign_backwards[OF assms, of MASK_TOKEN]
  by (simp add: masked_copy_def backwards_masked_def)

lemma length_forward_masked: "length (forward_masked toks i) = length toks"
  by (simp add: forward_masked_def)

lemma length_backwards_masked: "length (backwards_masked toks i) = length toks"
  by (simp add: backwards_masked_def)

section \<open>Softmax\<close>

lemma sum_list_exp_nonneg: "0 \<le> sum_list (map exp (xs :: real list))"
  by (induction xs) (simp_all add: add_nonneg_nonneg)

lemma softmax_denominator_pos:
  assumes "xs \<noteq> []"
  shows "0 < softmax_denominator xs"
proof (cases xs)
  case Nil
  with assms show ?thesis by simp
next
  case (Cons x rest)
  have "0 < exp x" by simp
  then have "0 < exp x + sum_list (map exp rest)"
    using sum_list_exp_nonneg[of rest] by (rule add_pos_nonneg)
  then show ?thesis by (simp add: softmax_denominator_def Cons)
qed

lemma softmax_pos:
  assumes "p \<in> set (softmax xs)"
  shows "0 < p"
proof -
  from assms obtain x where "x \<in> set xs" and p: "p = exp x / softmax_denominator xs"
    by (auto simp: softmax_def)
  then have "xs \<noteq> []" by auto
  then show ?thesis using p softmax_denominator_pos by simp
qed

lemma length_softmax: "length (softmax xs) = length xs"
  by (simp add: softmax_def)

lemma sum_list_map_divide:
  "sum_list (map (\<lambda>x. f x / c) xs) = sum_list (map f xs) / (c :: real)"
  by (induction xs) (simp_all add: add_divide_distrib)

lemma sum_list_softmax:
  assumes "xs \<noteq> []"
  shows "sum_list (softmax xs) = 1"
proof -
  have "sum_list (softmax xs) = sum_list (map exp xs) / softmax_denominator xs"
    unfolding softmax_def by (rule sum_list_map_divide)
  then show ?thesis
    using softmax_denominator_pos[OF assms] by (simp add: softmax_denominator_def)
qed

lemma py_index_softmax_pos:
  assumes "py_index (softmax xs) j = Inr p"
  shows "0 < p"
proof -
  from assms have "p \<in> set (softmax xs)"
    by (auto simp: py_index_def split: if_splits)
  then show ?thesis by (rule softmax_pos)
qed

lemma np_log10_softmax:
  assumes "py_index (softmax xs) j = Inr p"
  shows "np_log10 p = Inr (log 10 p)"
  using py_index_softmax_pos[OF assms] by (simp add: np_log10_def)

section \<open>One call of \<open>get_directional_prob\<close>\<close>

lemmas state_ops = deref_def store_def new_list_def list_copy_def list_slice_assign_def
  print_def run_model_def list_insert_front_def list_append_def ask_exit_def

lemma gdp_heap:
  assumes "r < length (heap s)"
  shows "heap (snd (get_directional_prob B sm r i d v s)) = heap s @ [masked_copy d (deref s r) i]"
  using assms
  by (auto simp add: get_directional_prob_def mask_direction_def masked_copy_def state_ops
      print_top_predictions_def nth_append Let_def split: sum.splits prod.splits)

lemma gdp_calls:
  assumes "r < length (heap s)"
  shows "model_calls (snd (get_directional_prob B sm r i d v s)) =
     model_calls s @ [convert_tokens_to_ids B (masked_copy d (deref s r) i)]"
  using assms
  by (auto simp add: get_directional_prob_def mask_direction_def masked_copy_def state_ops
      print_top_predictions_def nth_append Let_def split: sum.splits prod.splits)

lemma gdp_fst:
  assumes "r < length (heap s)"
  shows "fst (get_directional_prob B sm r i d v s) =
     (case py_index (model B (convert_tokens_to_ids B (masked_copy d (deref s r) i))) i of
        Inl e \<Rightarrow> Inl e
      | Inr logits \<Rightarrow>
          (if v then (case top_sorted_indexes (sm logits) 5 of
                        Inl e \<Rightarrow> Inl e | Inr _ \<Rightarrow> Inr (sm logits))
           else Inr (sm logits)))"
  using assms
  by (auto simp add: get_directional_prob_def mask_direction_def masked_copy_def state_ops
      print_top_predictions_def nth_append Let_def split: sum.splits prod.splits)

lemma gdp_stdout_quiet:
  assumes "r < length (heap s)"
  shows "stdout (snd (get_directional_prob B sm r i d False s)) =
     stdout s @ (if d = ''backwards'' \<or> d = ''forward'' then [] else [Print_text direction_message])"
  using assms
  by (auto simp add: get_directional_prob_def mask_direction_def masked_copy_def state_ops
      nth_append Let_def split: sum.splits prod.splits)

lemma gdp_exit_now:
  "exit_now (snd (get_directional_prob B sm r i d v s)) \<longleftrightarrow>
     exit_now s \<or> (d \<noteq> ''backwards'' \<and> d \<noteq> ''forward'')"
  by (auto simp add: get_directional_prob_def mask_direction_def state_ops
      print_top_predictions_def Let_def split: sum.splits prod.splits)

lemma gdp_deref:
  assumes "r < length (heap s)"
  shows "deref (snd (get_directional_prob B sm r i d v s)) r = deref s r"
    and "r < length (heap (snd (get_directional_prob B sm r i d v s)))"
  using assms by (simp_all add: gdp_heap deref_def nth_append)

lemma gdp_fst_any:
  "\<exists>shown. fst (get_directional_prob B sm r i d v s) =
     (case py_index (model B (convert_tokens_to_ids B shown)) i of
        Inl e \<Rightarrow> Inl e
      | Inr logits \<Rightarrow>
          (if v then (case top_sorted_indexes (sm logits) 5 of
                        Inl e \<Rightarrow> Inl e | Inr _ \<Rightarrow> Inr (sm logits))
           else Inr (sm logits)))"
proof -
  obtain c s1 where lc: "list_copy r s = (c, s1)" by (cases "list_copy r s")
  define s2 where "s2 = mask_direction r c i d s1"
  have "fst (get_directional_prob B sm r i d v s) =
     (case py_index (model B (convert_tokens_to_ids B (deref s2 c))) i of
        Inl e \<Rightarrow> Inl e
      | Inr logits \<Rightarrow>
          (if v then (case top_sorted_indexes (sm logits) 5 of
                        Inl e \<Rightarrow> Inl e | Inr _ \<Rightarrow> Inr (sm logits))
           else Inr (sm logits)))"
    by (simp add: get_directional_prob_def lc s2_def[symmetric] run_model_def
        print_top_predictions_def print_def deref_def Let_def split: sum.splits)
  then show ?thesis ..
qed

lemma gdp_softmax_output:
  assumes "fst (get_directional_prob B sm r i d v s) = Inr probs"
  shows "\<exists>logits. probs = sm logits"
proof -
  from gdp_fst_any[of B sm r i d v s] obtain shown where
    "fst (get_directional_prob B sm r i d v s) =
     (case py_index (model B (convert_tokens_to_ids B shown)) i of
        Inl e \<Rightarrow> Inl e
      | Inr logits \<Rightarrow>
          (if v then (case top_sorted_indexes (sm logits) 5 of
                        Inl e \<Rightarrow> Inl e | Inr _ \<Rightarrow> Inr (sm logits))
           else Inr (sm logits)))" ..
  with assms show ?thesis by (auto split: if_splits sum.splits)
qed

lemma py_index_error: "py_index xs i = Inl e \<Longrightarrow> e = IndexError"
  by (auto simp: py_index_def split: if_splits)

lemma top_sorted_indexes_error: "top_sorted_indexes probs k = Inl e \<Longrightarrow> e = ValueError"
  by (auto simp: top_sorted_indexes_def argpartition_def Let_def split: if_splits)

lemma gdp_no_log_error:
  "fst (get_directional_prob B sm r i d v s) \<noteq> Inl LogOfNonPositive"
proof -
  from gdp_fst_any[of B sm r i d v s] obtain shown where
    "fst (get_directional_prob B sm r i d v s) =
     (case py_index (model B (convert_tokens_to_ids B shown)) i of
        Inl e \<Rightarrow> Inl e
      | Inr logits \<Rightarrow>
          (if v then (case top_sorted_indexes (sm logits) 5 of
                        Inl e \<Rightarrow> Inl e | Inr _ \<Rightarrow> Inr (sm logits))
           else Inr (sm logits)))" ..
  then show ?thesis
    by (auto split: if_splits sum.splits dest: py_index_error top_sorted_indexes_error)
qed

lemma top_sorted_indexes_5:
  assumes "5 \<le> length probs"
  shows "\<exists>idx. top_sorted_indexes probs 5 = Inr idx"
  using assms by (simp add: top_sorted_indexes_def argpartition_def Let_def)

lemma length_masked_copy:
  assumes "1 \<le> i" "i + 1 < length toks" "d = ''backwards'' \<or> d = ''forward''"
  shows "length (masked_copy d toks (int i)) = length toks"
  using assms masked_copy_forward[of i toks] masked_copy_backwards[of i toks]
  by (auto simp: length_forward_masked length_backwards_masked)

lemma gdp_ok:
  assumes r: "r < length (heap s)" and ok: "bert_ok B V" and v: "v \<longrightarrow> 5 \<le> V"
    and i: "1 \<le> i" "i + 1 < length (deref s r)"
    and d: "d = ''backwards'' \<or> d = ''forward''"
  shows "fst (get_directional_prob B softmax r (int i) d v s) =
     Inr (softmax (model B (convert_tokens_to_ids B (masked_copy d (deref s r) (int i))) ! i))"
proof -
  let ?ids = "convert_tokens_to_ids B (masked_copy d (deref s r) (int i))"
  have len: "length (model B ?ids) = length (deref s r)"
    using ok length_masked_copy[OF i d] by (simp add: bert_ok_def convert_tokens_to_ids_def)
  then have idx: "py_index (model B ?ids) (int i) = Inr (model B ?ids ! i)"
    using i by (simp add: py_index_def)
  have "model B ?ids ! i \<in> set (model B ?ids)" using len i by simp
  then have "length (model B ?ids ! i) = V" using ok by (simp add: bert_ok_def)
  then have "v \<Longrightarrow> \<exists>idx. top_sorted_indexes (softmax (model B ?ids ! i)) 5 = Inr idx"
    using v top_sorted_indexes_5[of "softmax (model B ?ids ! i)"] by (simp add: length_softmax)
  then show ?thesis
    using d idx by (auto simp add: gdp_fst[OF r])
qed

section \<open>One round of the loop\<close>

lemma score_position_heap:
  assumes "r < length (heap s)"
  shows "\<exists>hs. heap (snd (score_position B sm r ids v i s)) = heap s @ hs"
proof -
  obtain a s1 where f: "get_directional_prob B sm r i ''forward'' v s = (a, s1)"
    by (cases "get_directional_prob B sm r i ''forward'' v s")
  obtain b s2 where g: "get_directional_prob B sm r i ''backwards'' v s1 = (b, s2)"
    by (cases "get_directional_prob B sm r i ''backwards'' v s1")
  have h1: "heap s1 = heap s @ [masked_copy ''forward'' (deref s r) i]"
    using gdp_heap[OF assms, of B sm i "''forward''" v] f by simp
  then have "r < length (heap s1)" using assms by simp
  then have h2: "heap s2 = heap s1 @ [masked_copy ''backwards'' (deref s1 r) i]"
    using gdp_heap[of r s1 B sm i "''backwards''" v] g by simp
  show ?thesis
    using h1 h2
    by (auto simp add: score_position_def f g print_def Let_def split: sum.splits)
qed

lemma score_position_deref:
  assumes "r < length (heap s)"
  shows "deref (snd (score_position B sm r ids v i s)) r = deref s r"
    and "r < length (heap (snd (score_position B sm r ids v i s)))"
  using score_position_heap[OF assms, of B sm ids v i] assms
  by (auto simp add: deref_def nth_append)

lemma score_position_no_log_error:
  "fst (score_position B softmax r ids v i s) \<noteq> Inl LogOfNonPositive"
proof -
  obtain a s1 where f: "get_directional_prob B softmax r i ''forward'' v s = (a, s1)"
    by (cases "get_directional_prob B softmax r i ''forward'' v s")
  obtain b s2 where g: "get_directional_prob B softmax r i ''backwards'' v s1 = (b, s2)"
    by (cases "get_directional_prob B softmax r i ''backwards'' v s1")
  have a: "a \<noteq> Inl LogOfNonPositive" "\<And>p. a = Inr p \<Longrightarrow> \<exists>xs. p = softmax xs"
    using gdp_no_log_error[of B softmax r i "''forward''" v s]
      gdp_softmax_output[of B softmax r i "''forward''" v s] f by auto
  have b: "b \<noteq> Inl LogOfNonPositive" "\<And>p. b = Inr p \<Longrightarrow> \<exists>xs. p = softmax xs"
    using gdp_no_log_error[of B softmax r i "''backwards''" v s1]
      gdp_softmax_output[of B softmax r i "''backwards''" v s1] g by auto
  show ?thesis
    using a b
    by (auto simp add: score_position_def f g Let_def np_log10_softmax
        split: sum.splits dest: py_index_error)
qed

lemma score_position_indep:
  assumes "r1 < length (heap s1)" "r2 < length (heap s2)" "deref s1 r1 = deref s2 r2"
  shows "fst (score_position B sm r1 ids v i s1) = fst (score_position B sm r2 ids v i s2)"
proof -
  obtain a1 t1 where f1: "get_directional_prob B sm r1 i ''forward'' v s1 = (a1, t1)"
    by (cases "get_directional_prob B sm r1 i ''forward'' v s1")
  obtain a2 t2 where f2: "get_directional_prob B sm r2 i ''forward'' v s2 = (a2, t2)"
    by (cases "get_directional_prob B sm r2 i ''forward'' v s2")
  obtain b1 u1 where g1: "get_directional_prob B sm r1 i ''backwards'' v t1 = (b1, u1)"
    by (cases "get_directional_prob B sm r1 i ''backwards'' v t1")
  obtain b2 u2 where g2: "get_directional_prob B sm r2 i ''backwards'' v t2 = (b2, u2)"
    by (cases "get_directional_prob B sm r2 i ''backwards'' v t2")
  have a: "a1 = a2"
    using gdp_fst[OF assms(1), of B sm i "''forward''" v]
      gdp_fst[OF assms(2), of B sm i "''forward''" v] f1 f2 assms(3) by simp
  have t1: "r1 < length (heap t1)" "deref t1 r1 = deref s1 r1"
    using gdp_deref[OF assms(1), of B sm i "''forward''" v] f1 by simp_all
  have t2: "r2 < length (heap t2)" "deref t2 r2 = deref s2 r2"
    using gdp_deref[OF assms(2), of B sm i "''forward''" v] f2 by simp_all
  have b: "b1 = b2"
    using gdp_fst[OF t1(1), of B sm i "''backwards''" v]
      gdp_fst[OF t2(1), of B sm i "''backwards''" v] g1 g2 t1(2) t2(2) assms(3) by simp
  have u: "deref u1 r1 = deref u2 r2"
    using gdp_deref(1)[OF t1(1), of B sm i "''backwards''" v]
      gdp_deref(1)[OF t2(1), of B sm i "''backwards''" v] g1 g2 t1(2) t2(2) assms(3) by simp
  show ?thesis
    by (simp add: score_position_def f1 f2 g1 g2 a b u Let_def split: sum.splits)
qed

lemma score_position_ok:
  assumes r: "r < length (heap s)" and ok: "bert_ok B V" and v: "v \<longrightarrow> 5 \<le> V"
    and i: "1 \<le> i" "i + 1 < length (deref s r)"
  shows "fst (score_position B softmax r (convert_tokens_to_ids B (deref s r)) v (int i) s) =
           Inr (log 10 (token_prob B (forward_masked (deref s r) i) (deref s r) i),
                log 10 (token_prob B (backwards_masked (deref s r) i) (deref s r) i))"
    and "heap (snd (score_position B softmax r (convert_tokens_to_ids B (deref s r)) v (int i) s)) =
           heap s @ [forward_masked (deref s r) i, backwards_masked (deref s r) i]"
    and "model_calls (snd (score_position B softmax r (convert_tokens_to_ids B (deref s r)) v (int i) s)) =
           model_calls s @ [convert_tokens_to_ids B (forward_masked (deref s r) i),
                            convert_tokens_to_ids B (backwards_masked (deref s r) i)]"
proof -
  let ?toks = "deref s r"
  let ?F = "forward_masked ?toks i" and ?K = "backwards_masked ?toks i"
  let ?pf = "softmax (model B (convert_tokens_to_ids B ?F) ! i)"
  let ?pb = "softmax (model B (convert_tokens_to_ids B ?K) ! i)"
  let ?id = "token_to_id B (?toks ! i)"
  obtain a s1 where f: "get_directional_prob B softmax r (int i) ''forward'' v s = (a, s1)"
    by (cases "get_directional_prob B softmax r (int i) ''forward'' v s")
  obtain b s2 where g: "get_directional_prob B softmax r (int i) ''backwards'' v s1 = (b, s2)"
    by (cases "get_directional_prob B softmax r (int i) ''backwards'' v s1")
  have a: "a = Inr ?pf"
    using gdp_ok[OF r ok v i, of "''forward''"] f masked_copy_forward[OF i] by simp
  have s1: "r < length (heap s1)" "deref s1 r = ?toks"
    using gdp_deref[OF r, of B softmax "int i" "''forward''" v] f by simp_all
  have h1: "heap s1 = heap s @ [?F]"
    using gdp_heap[OF r, of B softmax "int i" "''forward''" v] f masked_copy_forward[OF i] by simp
  have c1: "model_calls s1 = model_calls s @ [convert_tokens_to_ids B ?F]"
    using gdp_calls[OF r, of B softmax "int i" "''forward''" v] f masked_copy_forward[OF i] by simp
  have i1: "i + 1 < length (deref s1 r)" using i s1 by simp
  have b: "b = Inr ?pb"
    using gdp_ok[OF s1(1) ok v i(1) i1, of "''backwards''"] g masked_copy_backwards[OF i] s1(2)
    by simp
  have s2: "deref s2 r = ?toks"
    using gdp_deref(1)[OF s1(1), of B softmax "int i" "''backwards''" v] g s1(2) by simp
  have h2: "heap s2 = heap s @ [?F, ?K]"
    using gdp_heap[OF s1(1), of B softmax "int i" "''backwards''" v] g
      masked_copy_backwards[OF i] s1(2) h1 by simp
  have c2: "model_calls s2 = model_calls s @ [convert_tokens_to_ids B ?F, convert_tokens_to_ids B ?K]"
    using gdp_calls[OF s1(1), of B softmax "int i" "''backwards''" v] g
      masked_copy_backwards[OF i] s1(2) c1 by simp
  have id: "py_index (convert_tokens_to_ids B ?toks) (int i) = Inr ?id"
    using i by (simp add: py_index_def convert_tokens_to_ids_def)
  have idV: "?id < V" using ok by (simp add: bert_ok_def)
  have rows: "length (model B (convert_tokens_to_ids B ?F) ! i) = V"
      "length (model B (convert_tokens_to_ids B ?K) ! i) = V"
  proof -
    have "i < length (model B (convert_tokens_to_ids B ?F))"
      using ok i by (simp add: bert_ok_def convert_tokens_to_ids_def length_forward_masked)
    then have "model B (convert_tokens_to_ids B ?F) ! i \<in> set (model B (convert_tokens_to_ids B ?F))"
      by simp
    then show "length (model B (convert_tokens_to_ids B ?F) ! i) = V"
      using ok by (simp add: bert_ok_def)
    have "i < length (model B (convert_tokens_to_ids B ?K))"
      using ok i by (simp add: bert_ok_def convert_tokens_to_ids_def length_backwards_masked)
    then have "model B (convert_tokens_to_ids B ?K) ! i \<in> set (model B (convert_tokens_to_ids B ?K))"
      by simp
    then show "length (model B (convert_tokens_to_ids B ?K) ! i) = V"
      using ok by (simp add: bert_ok_def)
  qed
  have pf: "py_index ?pf (int ?id) = Inr (?pf ! ?id)"
    using idV rows by (simp add: py_index_def length_softmax)
  have pb: "py_index ?pb (int ?id) = Inr (?pb ! ?id)"
    using idV rows by (simp add: py_index_def length_softmax)
  have lf: "np_log10 (?pf ! ?id) = Inr (log 10 (?pf ! ?id))" using pf by (rule np_log10_softmax)
  have lb: "np_log10 (?pb ! ?id) = Inr (log 10 (?pb ! ?id))" using pb by (rule np_log10_softmax)
  have w: "py_index (deref s2 r) (int i) = Inr (?toks ! i)"
    using i s2 by (simp add: py_index_def)
  have sp: "score_position B softmax r (convert_tokens_to_ids B ?toks) v (int i) s =
      (Inr (log 10 (?pf ! ?id), log 10 (?pb ! ?id)),
       if v then print (Print_word (?toks ! i) (log 10 (?pf ! ?id)) (log 10 (?pb ! ?id))) s2 else s2)"
    by (simp add: score_position_def f g a b id pf pb lf lb w)
  show "fst (score_position B softmax r (convert_tokens_to_ids B ?toks) v (int i) s) =
           Inr (log 10 (token_prob B ?F ?toks i), log 10 (token_prob B ?K ?toks i))"
    by (simp add: sp token_prob_def)
  show "heap (snd (score_position B softmax r (convert_tokens_to_ids B ?toks) v (int i) s)) =
           heap s @ [?F, ?K]"
    by (simp add: sp h2 print_def)
  show "model_calls (snd (score_position B softmax r (convert_tokens_to_ids B ?toks) v (int i) s)) =
           model_calls s @ [convert_tokens_to_ids B ?F, convert_tokens_to_ids B ?K]"
    by (simp add: sp c2 print_def)
qed

section \<open>The loop\<close>

lemma accumulate_no_log_error:
  "fst (accumulate B softmax r ids v is acc s) \<noteq> Inl LogOfNonPositive"
proof (induction "is" arbitrary: acc s)
  case Nil
  then show ?case by simp
next
  case (Cons i rest)
  obtain a s' where sp: "score_position B softmax r ids v i s = (a, s')"
    by (cases "score_position B softmax r ids v i s")
  have "a \<noteq> Inl LogOfNonPositive"
    using score_position_no_log_error[of B r ids v i s] sp by simp
  then show ?case
    using Cons.IH by (auto simp add: sp split: sum.splits)
qed

lemma accumulate_indep:
  assumes "r1 < length (heap s1)" "r2 < length (heap s2)" "deref s1 r1 = deref s2 r2"
  shows "fst (accumulate B sm r1 ids v is acc s1) = fst (accumulate B sm r2 ids v is acc s2)"
  using assms
proof (induction "is" arbitrary: acc s1 s2)
  case Nil
  then show ?case by simp
next
  case (Cons i rest)
  obtain a1 t1 where p1: "score_position B sm r1 ids v i s1 = (a1, t1)"
    by (cases "score_position B sm r1 ids v i s1")
  obtain a2 t2 where p2: "score_position B sm r2 ids v i s2 = (a2, t2)"
    by (cases "score_position B sm r2 ids v i s2")
  have a: "a1 = a2"
    using score_position_indep[OF Cons.prems, of B sm ids v i] p1 p2 by simp
  have t1: "r1 < length (heap t1)" "deref t1 r1 = deref s1 r1"
    using score_position_deref[OF Cons.prems(1), of B sm ids v i] p1 by simp_all
  have t2: "r2 < length (heap t2)" "deref t2 r2 = deref s2 r2"
    using score_position_deref[OF Cons.prems(2), of B sm ids v i] p2 by simp_all
  have "deref t1 r1 = deref t2 r2" using t1 t2 Cons.prems(3) by simp
  then show ?case
    using Cons.IH[OF t1(1) t2(1)] by (auto simp add: p1 p2 a split: sum.splits)
qed

lemma accumulate_ok:
  assumes "r < length (heap s)" and "bert_ok B V" and "v \<longrightarrow> 5 \<le> V"
    and "deref s r = toks"
    and "\<forall>p \<in> set ps. 1 \<le> p \<and> p + 1 < length toks"
  shows "fst (accumulate B softmax r (convert_tokens_to_ids B toks) v (map int ps) acc s) =
           Inr (fst acc + (\<Sum>p\<leftarrow>ps. log 10 (token_prob B (forward_masked toks p) toks p)),
                snd acc + (\<Sum>p\<leftarrow>ps. log 10 (token_prob B (backwards_masked toks p) toks p)))
       \<and> heap (snd (accumulate B softmax r (convert_tokens_to_ids B toks) v (map int ps) acc s)) =
           heap s @ concat (map (\<lambda>p. [forward_masked toks p, backwards_masked toks p]) ps)
       \<and> model_calls (snd (accumulate B softmax r (convert_tokens_to_ids B toks) v (map int ps) acc s)) =
           model_calls s @ concat (map (\<lambda>p. [convert_tokens_to_ids B (forward_masked toks p),
                                             convert_tokens_to_ids B (backwards_masked toks p)]) ps)"
  using assms
proof (induction ps arbitrary: acc s)
  case Nil
  then show ?case by simp
next
  case (Cons p rest)
  let ?ids = "convert_tokens_to_ids B toks"
  obtain a s' where sp: "score_position B softmax r ?ids v (int p) s = (a, s')"
    by (cases "score_position B softmax r ?ids v (int p) s")
  have p: "1 \<le> p" "p + 1 < length (deref s r)" using Cons.prems(4,5) by simp_all
  note okp = score_position_ok[OF Cons.prems(1) Cons.prems(2) Cons.prems(3) p]
  have a: "a = Inr (log 10 (token_prob B (forward_masked toks p) toks p),
                    log 10 (token_prob B (backwards_masked toks p) toks p))"
    using okp(1) sp Cons.prems(4) by simp
  have h: "heap s' = heap s @ [forward_masked toks p, backwards_masked toks p]"
    using okp(2) sp Cons.prems(4) by simp
  have c: "model_calls s' = model_calls s @ [convert_tokens_to_ids B (forward_masked toks p),
                            convert_tokens_to_ids B (backwards_masked toks p)]"
    using okp(3) sp Cons.prems(4) by simp
  have r': "r < length (heap s')" using h Cons.prems(1) by simp
  have d': "deref s' r = toks" using h Cons.prems(1,4) by (simp add: deref_def nth_append)
  have rest: "\<forall>q \<in> set rest. 1 \<le> q \<and> q + 1 < length toks" using Cons.prems(5) by simp
  note ih = Cons.IH[OF r' Cons.prems(2) Cons.prems(3) d' rest,
      of "(fst acc + log 10 (token_prob B (forward_masked toks p) toks p),
           snd acc + log 10 (token_prob B (backwards_masked toks p) toks p))"]
  show ?case
    using ih by (simp add: sp a h c add.assoc)
qed

section \<open>Adding the special tokens\<close>

lemma preprocess_empty:
  assumes "tokenize B sentence = []"
  shows "preprocess B sentence s = (Inl IndexError, s\<lparr>heap := heap s @ [[]]\<rparr>)"
  using assms by (simp add: preprocess_def new_list_def deref_def py_index_def)

lemma py_index_last: "xs \<noteq> [] \<Longrightarrow> py_index xs (- 1) = Inr (last xs)"
  by (cases xs) (simp_all add: py_index_def last_conv_nth)

lemma py_index_first: "xs \<noteq> [] \<Longrightarrow> py_index xs 0 = Inr (hd xs)"
  by (simp add: py_index_def hd_conv_nth)

lemma preprocess_ok:
  assumes "tokenize B sentence \<noteq> []"
  shows "preprocess B sentence s =
     (Inr (length (heap s)), s\<lparr>heap := heap s @ [with_special_tokens (tokenize B sentence)]\<rparr>)"
  using assms
  by (simp add: preprocess_def new_list_def deref_def py_index_first py_index_last
      list_insert_front_def list_append_def store_def with_special_tokens_def Let_def)

lemma length_with_special_tokens:
  assumes "toks \<noteq> []"
  shows "2 \<le> length (with_special_tokens toks)"
proof (cases toks)
  case Nil
  with assms show ?thesis by simp
next
  case (Cons t rest)
  then show ?thesis
    by (cases rest rule: rev_cases)
       (auto simp add: with_special_tokens_def BOS_TOKEN_def EOS_TOKEN_def Let_def)
qed

section \<open>The sentence\<close>

lemma sentence_log_probs_no_log_error:
  "fst (sentence_log_probs B r v s) \<noteq> Inl LogOfNonPositive"
  by (simp add: sentence_log_probs_def Let_def accumulate_no_log_error)

lemma sentence_log_probs_indep:
  assumes "r1 < length (heap s1)" "r2 < length (heap s2)" "deref s1 r1 = deref s2 r2"
  shows "fst (sentence_log_probs B r1 v s1) = fst (sentence_log_probs B r2 v s2)"
proof -
  let ?t1 = "print (Print_processing (deref s1 r1)) s1"
  let ?t2 = "print (Print_processing (deref s2 r2)) s2"
  have "r1 < length (heap ?t1)" "r2 < length (heap ?t2)" "deref ?t1 r1 = deref ?t2 r2"
    using assms by (simp_all add: print_def deref_def)
  from accumulate_indep[OF this] show ?thesis
    using assms(3) by (simp add: sentence_log_probs_def Let_def print_def deref_def)
qed

lemma sentence_log_probs_ok:
  assumes "r < length (heap s)" and "bert_ok B V" and "v \<longrightarrow> 5 \<le> V"
    and "deref s r = toks"
  shows "fst (sentence_log_probs B r v s) =
           Inr ((\<Sum>p\<leftarrow>[1..<length toks - 1]. log 10 (token_prob B (forward_masked toks p) toks p)),
                (\<Sum>p\<leftarrow>[1..<length toks - 1]. log 10 (token_prob B (backwards_masked toks p) toks p)))
       \<and> heap (snd (sentence_log_probs B r v s)) =
           heap s @ concat (map (\<lambda>p. [forward_masked toks p, backwards_masked toks p])
                              [1..<length toks - 1])
       \<and> model_calls (snd (sentence_log_probs B r v s)) =
           model_calls s @ concat (map (\<lambda>p. [convert_tokens_to_ids B (forward_masked toks p),
                                             convert_tokens_to_ids B (backwards_masked toks p)])
                                     [1..<length toks - 1])"
proof -
  let ?t = "print (Print_processing toks) s"
  have t: "r < length (heap ?t)" "deref ?t r = toks"
    using assms(1,4) by (simp_all add: print_def deref_def)
  have ps: "\<forall>p \<in> set [1..<length toks - 1]. 1 \<le> p \<and> p + 1 < length toks" by auto
  have eq: "sentence_log_probs B r v s =
      accumulate B softmax r (convert_tokens_to_ids B toks) v (map int [1..<length toks - 1]) (0, 0) ?t"
    using assms(4) t(2) by (simp add: sentence_log_probs_def Let_def py_range_nat)
  show ?thesis
    using accumulate_ok[OF t(1) assms(2) assms(3) t(2) ps, of "(0, 0)"]
    by (simp add: eq print_def)
qed

lemma get_sentence_prob_fst:
  "fst (get_sentence_prob B sentence v s) =
     (case preprocess B sentence s of
        (Inl e, s1) \<Rightarrow> Inl e
      | (Inr r, s1) \<Rightarrow>
          (case fst (sentence_log_probs B r v s1) of
             Inl e \<Rightarrow> Inl e
           | Inr (lf, lb) \<Rightarrow> Inr (10 powr (0.5 * (lf + lb)))))"
  by (simp add: get_sentence_prob_def Let_def split: prod.splits sum.splits)

lemma get_sentence_prob_no_log_error:
  "fst (get_sentence_prob B sentence v s) \<noteq> Inl LogOfNonPositive"
proof (cases "tokenize B sentence = []")
  case True
  then show ?thesis by (simp add: get_sentence_prob_fst preprocess_empty)
next
  case False
  then show ?thesis
    using sentence_log_probs_no_log_error
    by (auto simp add: get_sentence_prob_fst preprocess_ok split: sum.splits)
qed

lemma get_sentence_prob_indep:
  "fst (get_sentence_prob B sentence v s1) = fst (get_sentence_prob B sentence v s2)"
proof (cases "tokenize B sentence = []")
  case True
  then show ?thesis by (simp add: get_sentence_prob_fst preprocess_empty)
next
  case False
  let ?toks = "with_special_tokens (tokenize B sentence)"
  let ?t1 = "s1\<lparr>heap := heap s1 @ [?toks]\<rparr>" and ?t2 = "s2\<lparr>heap := heap s2 @ [?toks]\<rparr>"
  have "length (heap s1) < length (heap ?t1)" "length (heap s2) < length (heap ?t2)"
    "deref ?t1 (length (heap s1)) = deref ?t2 (length (heap s2))"
    by (simp_all add: deref_def)
  from sentence_log_probs_indep[OF this] show ?thesis
    using False by (simp add: get_sentence_prob_fst preprocess_ok)
qed

section \<open>Geometric mean\<close>

lemma prod_list_pos:
  assumes "\<forall>x \<in> set xs. (0::real) < x"
  shows "0 < prod_list xs"
  using assms by (induction xs) simp_all

lemma log_prod_list:
  assumes "\<forall>x \<in> set xs. (0::real) < x"
  shows "log 10 (prod_list xs) = sum_list (map (log 10) xs)"
  using assms
proof (induction xs)
  case Nil
  then show ?case by simp
next
  case (Cons x xs)
  then have "0 < x" "0 < prod_list xs" using prod_list_pos[of xs] by simp_all
  then show ?case using Cons by (simp add: log_mult_pos)
qed

lemma geometric_mean_of_logs:
  assumes "\<forall>x \<in> set fs. (0::real) < x" "\<forall>x \<in> set bs. (0::real) < x"
  shows "10 powr (0.5 * (sum_list (map (log 10) fs) + sum_list (map (log 10) bs))) =
         sqrt (prod_list fs * prod_list bs)"
proof -
  let ?P = "prod_list fs * prod_list bs"
  have pos: "0 < ?P" using assms prod_list_pos by simp
  have "sum_list (map (log 10) fs) + sum_list (map (log 10) bs) = log 10 ?P"
    using assms prod_list_pos by (simp add: log_prod_list log_mult_pos)
  then have "10 powr (0.5 * (sum_list (map (log 10) fs) + sum_list (map (log 10) bs))) =
      (10 powr log 10 ?P) powr (1/2)"
    by (simp add: powr_powr mult.commute)
  also have "\<dots> = ?P powr (1/2)" using pos by simp
  also have "\<dots> = sqrt ?P" using pos by (simp add: powr_half_sqrt)
  finally show ?thesis .
qed

lemma token_prob_pos:
  assumes "bert_ok B V" "i < length masked"
  shows "0 < token_prob B masked toks i"
proof -
  let ?ids = "convert_tokens_to_ids B masked"
  have "i < length (model B ?ids)"
    using assms by (simp add: bert_ok_def convert_tokens_to_ids_def)
  then have "model B ?ids ! i \<in> set (model B ?ids)" by simp
  then have "length (model B ?ids ! i) = V" using assms(1) by (simp add: bert_ok_def)
  moreover have "token_to_id B (toks ! i) < V" using assms(1) by (simp add: bert_ok_def)
  ultimately have "softmax (model B ?ids ! i) ! token_to_id B (toks ! i) \<in> set (softmax (model B ?ids ! i))"
    by (simp add: length_softmax)
  then show ?thesis unfolding token_prob_def by (rule softmax_pos)
qed

section \<open>The small instance\<close>

lemma toy_bert_ok: "bert_ok toy_bert 8"
  by (simp add: bert_ok_def toy_bert_def toy_token_to_id_def toy_vocab_def)

lemma toy_tokenize_kids: "tokenize toy_bert ''kids eat'' = [''kids'', ''eat'']"
  by (simp add: toy_bert_def)

lemma toy_preprocess_kids: "preprocess toy_bert ''kids eat'' empty_state = (Inr 0, kids_state)"
  by (simp add: preprocess_ok toy_tokenize_kids with_special_tokens_def empty_state_def
      kids_state_def BOS_TOKEN_def EOS_TOKEN_def)

lemma preprocess_Inr:
  assumes "preprocess B sentence s0 = (Inr r, s)"
  shows "tokenize B sentence \<noteq> []" and "r < length (heap s)"
    and "deref s r = with_special_tokens (tokenize B sentence)"
proof -
  show ne: "tokenize B sentence \<noteq> []"
    using assms preprocess_empty[of B sentence s0] by auto
  from preprocess_ok[OF ne, of s0] assms
  have "r = length (heap s0)" "s = s0\<lparr>heap := heap s0 @ [with_special_tokens (tokenize B sentence)]\<rparr>"
    by simp_all
  then show "r < length (heap s)" "deref s r = with_special_tokens (tokenize B sentence)"
    by (simp_all add: deref_def)
qed

lemma forward_masked_nth:
  assumes "j < length toks"
  shows "forward_masked toks i ! j = (if i \<le> j \<and> j + 2 \<le> length toks then MASK_TOKEN else toks ! j)"
  using assms by (auto simp add: forward_masked_def)

lemma backwards_masked_nth:
  assumes "j < length toks"
  shows "backwards_masked toks i ! j = (if 1 \<le> j \<and> j \<le> i then MASK_TOKEN else toks ! j)"
  using assms by (simp add: backwards_masked_def)

lemma gdp_shown:
  assumes "r < length (heap s)"
  shows "deref (snd (get_directional_prob B sm r i d v s)) (length (heap s)) =
     masked_copy d (deref s r) i"
  using gdp_heap[OF assms, of B sm i d v] by (simp add: deref_def)

section \<open>\<open>get_top_predictions\<close>\<close>

lemma argsort_perm:
  "length (argsort xs) = length xs" "set (argsort xs) = {..<length xs}" "distinct (argsort xs)"
  by (auto simp add: argsort_def)

lemma argsort_sorted: "sorted (map (\<lambda>i. xs ! i) (argsort xs))"
  unfolding argsort_def by (rule sorted_sort_key)

lemma sorted_uminus_rev:
  assumes "sorted (map (\<lambda>j. - (f j :: real)) js)"
  shows "sorted (rev (map f js))"
  using assms
  by (induction js) (auto simp add: sorted_append)

lemma top_sorted_indexes_top_k:
  assumes "1 \<le> k" and "k \<le> int (length probs)"
  shows "\<exists>top. top_sorted_indexes probs k = Inr top
     \<and> length top = nat k \<and> distinct top \<and> set top \<subseteq> {..<length probs}
     \<and> non_increasing (map (\<lambda>i. probs ! i) top)
     \<and> (\<forall>i \<in> set top. \<forall>j < length probs. j \<notin> set top \<longrightarrow> probs ! j \<le> probs ! i)"
proof -
  define n where "n = length probs"
  define part where "part = argsort probs"
  define cut where "cut = n - nat k"
  define top_indexes where "top_indexes = drop cut part"
  define ys where "ys = map uminus (take_indices probs top_indexes)"
  define perm where "perm = argsort ys"
  define top where "top = take_indices top_indexes perm"
  have kn: "nat k \<le> n" using assms by (simp add: n_def)
  have part: "length part = n" "set part = {..<n}" "distinct part"
    using argsort_perm[of probs] by (simp_all add: part_def n_def)
  have sb: "slice_bound (length part) (- k) = cut"
    using assms by (simp add: slice_bound_def part(1) cut_def n_def nat_diff_distrib)
  have ap: "argpartition probs (- k) = Inr part"
    using assms by (simp add: argpartition_def part_def)
  have eq: "top_sorted_indexes probs k = Inr top"
    unfolding top_sorted_indexes_def ap slice_from_def Let_def
    by (simp add: sb top_def perm_def ys_def top_indexes_def)
  have lt: "length top_indexes = nat k"
    using kn by (simp add: top_indexes_def part(1) cut_def)
  have dt: "distinct top_indexes" by (simp add: top_indexes_def part(3))
  have st: "set top_indexes \<subseteq> {..<n}"
    using set_drop_subset[of cut part] by (simp add: top_indexes_def part(2))
  have ly: "length ys = nat k" by (simp add: ys_def take_indices_def lt)
  have perm: "length perm = nat k" "set perm = {..<nat k}" "distinct perm"
    using argsort_perm[of ys] by (simp_all add: perm_def ly)
  have len: "length top = nat k" by (simp add: top_def take_indices_def perm(1))
  have set_top: "set top = set top_indexes"
  proof -
    have "set top = (\<lambda>j. top_indexes ! j) ` {..<nat k}"
      by (simp add: top_def take_indices_def perm(2))
    also have "\<dots> = set top_indexes"
      using lt by (auto simp add: set_conv_nth)
    finally show ?thesis .
  qed
  have dist: "distinct top"
  proof -
    have "inj_on (\<lambda>j. top_indexes ! j) (set perm)"
      using dt lt perm(2) by (auto simp add: inj_on_def nth_eq_iff_index_eq)
    then show ?thesis
      unfolding top_def take_indices_def using perm(3) by (simp add: distinct_map)
  qed
  have ni: "non_increasing (map (\<lambda>i. probs ! i) top)"
  proof -
    have "sorted (map (\<lambda>j. ys ! j) perm)" unfolding perm_def by (rule argsort_sorted)
    moreover have "map (\<lambda>j. ys ! j) perm = map (\<lambda>j. - (probs ! (top_indexes ! j))) perm"
      using perm(2) lt by (auto simp add: ys_def take_indices_def)
    ultimately have "sorted (map (\<lambda>j. - (probs ! (top_indexes ! j))) perm)" by simp
    then have "sorted (rev (map (\<lambda>j. probs ! (top_indexes ! j)) perm))"
      by (rule sorted_uminus_rev)
    then show ?thesis
      by (simp add: non_increasing_def top_def take_indices_def comp_def)
  qed
  have best: "\<forall>i \<in> set top. \<forall>j < n. j \<notin> set top \<longrightarrow> probs ! j \<le> probs ! i"
  proof (intro ballI allI impI)
    fix i j
    assume i: "i \<in> set top" and j: "j < n" and nj: "j \<notin> set top"
    have "sorted (map (\<lambda>i. probs ! i) (take cut part @ drop cut part))"
      using argsort_sorted[of probs] by (simp add: part_def)
    then have ord: "\<forall>x \<in> set (take cut part). \<forall>y \<in> set (drop cut part). probs ! x \<le> probs ! y"
      unfolding map_append sorted_append by auto
    have "j \<in> set (take cut part @ drop cut part)" using j by (simp add: part(2))
    then have "j \<in> set (take cut part) \<union> set top_indexes"
      unfolding set_append top_indexes_def .
    then have "j \<in> set (take cut part)" using nj set_top by auto
    moreover have "i \<in> set (drop cut part)" using i set_top by (simp add: top_indexes_def)
    ultimately show "probs ! j \<le> probs ! i" using ord by blast
  qed
  show ?thesis
    using eq len dist st set_top ni best unfolding n_def by auto
qed

lemma get_top_predictions_top_k:
  assumes "1 \<le> k" and "k \<le> int (length probs)"
  shows "\<exists>top. fst (get_top_predictions B probs k thres s) =
       Inr (convert_ids_to_tokens B top,
            convert_ids_to_tokens B (filter (\<lambda>i. thres < probs ! i) [0..<length probs]))
     \<and> length top = nat k \<and> distinct top \<and> set top \<subseteq> {..<length probs}
     \<and> non_increasing (map (\<lambda>i. probs ! i) top)
     \<and> (\<forall>i \<in> set top. \<forall>j < length probs. j \<notin> set top \<longrightarrow> probs ! j \<le> probs ! i)"
proof -
  from top_sorted_indexes_top_k[OF assms] obtain top where
    t: "top_sorted_indexes probs k = Inr top" and
    p: "length top = nat k \<and> distinct top \<and> set top \<subseteq> {..<length probs}
     \<and> non_increasing (map (\<lambda>i. probs ! i) top)
     \<and> (\<forall>i \<in> set top. \<forall>j < length probs. j \<notin> set top \<longrightarrow> probs ! j \<le> probs ! i)"
    by blast
  have "fst (get_top_predictions B probs k thres s) =
       Inr (convert_ids_to_tokens B top,
            convert_ids_to_tokens B (filter (\<lambda>i. thres < probs ! i) [0..<length probs]))"
    by (simp add: get_top_predictions_def t np_where_gt_def Let_def)
  with p show ?thesis by blast
qed

section \<open>Padding\<close>

lemma fold_max_Max: "fold max xs (x::nat) = Max (insert x (set xs))"
  using Max.set_eq_fold[of x xs] by simp

lemma py_max_Inr:
  "py_max xs = Inr m \<longleftrightarrow> xs \<noteq> [] \<and> m = Max (set xs)"
  by (cases xs) (auto simp add: py_max_def fold_max_Max)

lemma mask_positions_of_Inr:
  "(\<exists>ps. mask_positions_of ids v = Inr ps) \<longleftrightarrow> (\<forall>s \<in> set ids. v \<in> set s)"
  by (induction ids) (auto simp add: list_index_def split: sum.splits)

lemma pad_sentences_cases:
  assumes "ids = map (encode B) sentences"
  shows "pad_sentences B sentences =
     (case mask_positions_of ids (token_to_id B MASK) of
        Inl e \<Rightarrow> Inl e
      | Inr ps \<Rightarrow>
          (case py_max (map length ids) of
             Inl e \<Rightarrow> Inl e
           | Inr m \<Rightarrow>
               Inr \<lparr>input_ids = ids, mask_positions = ps, max_len = m,
                    padded_input = map (\<lambda>i. i @ replicate (m - length i) 0) ids,
                    attention_mask =
                      map (map (\<lambda>x. if x \<noteq> 0 then 1 else 0))
                        (map (\<lambda>i. i @ replicate (m - length i) 0) ids)\<rparr>))"
  unfolding pad_sentences_def Let_def assms ..

lemma pad_sentences_Inr:
  assumes "pad_sentences B sentences = Inr batch"
  shows "input_ids batch = map (encode B) sentences"
    and "sentences \<noteq> []"
    and "max_len batch = Max (set (map length (input_ids batch)))"
    and "padded_input batch =
           map (\<lambda>i. i @ replicate (max_len batch - length i) 0) (input_ids batch)"
    and "attention_mask batch = map (map (\<lambda>x. if x \<noteq> 0 then 1 else 0)) (padded_input batch)"
proof -
  define ids where "ids = map (encode B) sentences"
  from assms obtain ps m where
    m: "py_max (map length ids) = Inr m" and
    batch: "batch = \<lparr>input_ids = ids, mask_positions = ps, max_len = m,
                    padded_input = map (\<lambda>i. i @ replicate (m - length i) 0) ids,
                    attention_mask =
                      map (map (\<lambda>x. if x \<noteq> 0 then 1 else 0))
                        (map (\<lambda>i. i @ replicate (m - length i) 0) ids)\<rparr>"
    unfolding pad_sentences_cases[OF ids_def] by (auto split: sum.splits)
  from m have ne: "map length ids \<noteq> []" and mx: "m = Max (set (map length ids))"
    unfolding py_max_Inr by blast+
  show "input_ids batch = map (encode B) sentences" by (simp add: batch ids_def)
  show "sentences \<noteq> []" using ne by (simp add: ids_def)
  show "max_len batch = Max (set (map length (input_ids batch)))"
    unfolding batch using mx by simp
  show "padded_input batch =
           map (\<lambda>i. i @ replicate (max_len batch - length i) 0) (input_ids batch)"
    unfolding batch by simp
  show "attention_mask batch = map (map (\<lambda>x. if x \<noteq> 0 then 1 else 0)) (padded_input batch)"
    unfolding batch by simp
qed

lemma toy_pad_sentences:
  "pad_sentences toy_bert [''kids [MASK]'', ''kids eat [MASK] candy''] = Inr toy_batch"
  by (simp add: pad_sentences_def toy_bert_def toy_token_to_id_def toy_vocab_def list_index_def
      py_max_def toy_batch_def MASK_def Let_def)

section \<open>The claims\<close>

text \<open>
  C1, as stated: for every input sentence \<open>get_sentence_prob\<close> returns
  \<open>10\<close> to the power \<open>0.5 * (L_f + L_b)\<close>. A sentence that the tokenizer turns into no
  token at all (the empty string is one) does not get that far: reading
  \<open>tokenized_input[0]\<close> raises IndexError and nothing is returned.
\<close>

theorem empty_sentence_raises:
  "tokenize toy_bert [] = []
   \<and> fst (get_sentence_prob toy_bert [] False empty_state) = Inl IndexError"
  by (simp add: get_sentence_prob_fst preprocess_empty toy_bert_def)

text \<open>
  C1, amended: for every sentence whose tokenization is not empty, \<open>get_sentence_prob\<close>
  returns \<open>10\<close> to the power \<open>0.5 * (L_f + L_b)\<close>, where \<open>L_f\<close> and \<open>L_b\<close> are the two
  sums its loop accumulated, and this value is the geometric mean
  \<open>sqrt (P_f * P_b)\<close> of the products of the per-token probabilities of the two
  directions over the interior positions.
\<close>

theorem sentence_prob_is_geometric_mean:
  assumes "bert_ok B V" and "verbose \<longrightarrow> 5 \<le> V" and "tokenize B sentence \<noteq> []"
  shows "\<exists>tokenized_input s1 L_f L_b.
     preprocess B sentence s = (Inr tokenized_input, s1)
     \<and> fst (sentence_log_probs B tokenized_input verbose s1) = Inr (L_f, L_b)
     \<and> fst (get_sentence_prob B sentence verbose s) = Inr (10 powr (0.5 * (L_f + L_b)))
     \<and> 10 powr (0.5 * (L_f + L_b)) =
         sqrt (prod_list (map (\<lambda>p. token_prob B (forward_masked (deref s1 tokenized_input) p)
                                        (deref s1 tokenized_input) p)
                            [1..<length (deref s1 tokenized_input) - 1])
             * prod_list (map (\<lambda>p. token_prob B (backwards_masked (deref s1 tokenized_input) p)
                                        (deref s1 tokenized_input) p)
                            [1..<length (deref s1 tokenized_input) - 1]))"
proof -
  let ?r = "length (heap s)"
  let ?toks = "with_special_tokens (tokenize B sentence)"
  let ?s1 = "s\<lparr>heap := heap s @ [?toks]\<rparr>"
  let ?ps = "[1..<length ?toks - 1]"
  let ?fs = "map (\<lambda>p. token_prob B (forward_masked ?toks p) ?toks p) ?ps"
  let ?bs = "map (\<lambda>p. token_prob B (backwards_masked ?toks p) ?toks p) ?ps"
  let ?L_f = "sum_list (map (log 10) ?fs)" and ?L_b = "sum_list (map (log 10) ?bs)"
  have pre: "preprocess B sentence s = (Inr ?r, ?s1)"
    using assms(3) by (rule preprocess_ok)
  have r: "?r < length (heap ?s1)" and d: "deref ?s1 ?r = ?toks"
    by (simp_all add: deref_def)
  have logs: "fst (sentence_log_probs B ?r verbose ?s1) = Inr (?L_f, ?L_b)"
    using sentence_log_probs_ok[OF r assms(1) assms(2) d] by (simp add: comp_def)
  have val: "fst (get_sentence_prob B sentence verbose s) = Inr (10 powr (0.5 * (?L_f + ?L_b)))"
    using logs by (simp add: get_sentence_prob_fst pre)
  have "\<forall>x \<in> set ?fs. 0 < x"
    using token_prob_pos[OF assms(1)] by (auto simp add: length_forward_masked)
  moreover have "\<forall>x \<in> set ?bs. 0 < x"
    using token_prob_pos[OF assms(1)] by (auto simp add: length_backwards_masked)
  ultimately have gm: "10 powr (0.5 * (?L_f + ?L_b)) = sqrt (prod_list ?fs * prod_list ?bs)"
    by (rule geometric_mean_of_logs)
  show ?thesis
    apply (rule exI[of _ ?r])
    apply (rule exI[of _ ?s1])
    apply (rule exI[of _ ?L_f])
    apply (rule exI[of _ ?L_b])
    apply (simp only: pre logs val d gm simp_thms)
    done
qed

theorem sentence_prob_is_geometric_mean_witness:
  "bert_ok toy_bert 8 \<and> (5::nat) \<le> 8 \<and> tokenize toy_bert ''kids eat'' \<noteq> []
   \<and> (\<exists>tokenized_input s1 L_f L_b.
     preprocess toy_bert ''kids eat'' empty_state = (Inr tokenized_input, s1)
     \<and> fst (sentence_log_probs toy_bert tokenized_input True s1) = Inr (L_f, L_b)
     \<and> fst (get_sentence_prob toy_bert ''kids eat'' True empty_state) =
         Inr (10 powr (0.5 * (L_f + L_b)))
     \<and> 10 powr (0.5 * (L_f + L_b)) =
         sqrt (prod_list (map (\<lambda>p. token_prob toy_bert (forward_masked (deref s1 tokenized_input) p)
                                        (deref s1 tokenized_input) p)
                            [1..<length (deref s1 tokenized_input) - 1])
             * prod_list (map (\<lambda>p. token_prob toy_bert (backwards_masked (deref s1 tokenized_input) p)
                                        (deref s1 tokenized_input) p)
                            [1..<length (deref s1 tokenized_input) - 1])))"
proof -
  have v: "True \<longrightarrow> (5::nat) \<le> 8" by simp
  have ne: "tokenize toy_bert ''kids eat'' \<noteq> []" by (simp add: toy_tokenize_kids)
  from sentence_prob_is_geometric_mean[OF toy_bert_ok v ne, of empty_state]
  show ?thesis using toy_bert_ok ne by simp
qed

text \<open>
  C2, as stated: the model is shown the sentence with exactly the one token at position
  \<open>i\<close> replaced by \<open>[MASK]\<close>. For \<open>[CLS] kids eat [SEP]\<close> and \<open>i = 1\<close> the forward call
  evaluates the model on \<open>[CLS] [MASK] [MASK] [SEP]\<close>: the token \<open>eat\<close> at position 2 is
  masked as well, and the input differs from the one with the single mask.
\<close>

theorem forward_masks_more_than_one_token:
  "model_calls (snd (get_directional_prob toy_bert softmax 0 1 ''forward'' False kids_state)) =
     [convert_tokens_to_ids toy_bert [''[CLS]'', ''[MASK]'', ''[MASK]'', ''[SEP]'']]
   \<and> deref (snd (get_directional_prob toy_bert softmax 0 1 ''forward'' False kids_state)) 1 =
     [''[CLS]'', ''[MASK]'', ''[MASK]'', ''[SEP]'']
   \<and> single_masked (deref kids_state 0) 1 = [''[CLS]'', ''[MASK]'', ''eat'', ''[SEP]'']
   \<and> convert_tokens_to_ids toy_bert [''[CLS]'', ''[MASK]'', ''[MASK]'', ''[SEP]''] = [2, 4, 4, 3]
   \<and> convert_tokens_to_ids toy_bert (single_masked (deref kids_state 0) 1) = [2, 4, 6, 3]
   \<and> model_calls (snd (get_directional_prob toy_bert softmax 0 1 ''forward'' False kids_state)) \<noteq>
     [convert_tokens_to_ids toy_bert (single_masked (deref kids_state 0) 1)]"
proof -
  have r: "0 < length (heap kids_state)" by (simp add: kids_state_def)
  have m: "masked_copy ''forward'' (deref kids_state 0) 1 = [''[CLS]'', ''[MASK]'', ''[MASK]'', ''[SEP]'']"
    by (simp add: masked_copy_def kids_state_def deref_def slice_assign_def slice_bound_def
        MASK_TOKEN_def numeral_2_eq_2)
  have l: "length (heap kids_state) = 1" by (simp add: kids_state_def)
  show ?thesis
    using gdp_calls[OF r, of toy_bert softmax 1 "''forward''" False]
      gdp_shown[OF r, of toy_bert softmax 1 "''forward''" False] m l
    by (simp add: kids_state_def deref_def single_masked_def MASK_TOKEN_def
        convert_tokens_to_ids_def toy_bert_def toy_token_to_id_def toy_vocab_def)
qed

text \<open>
  C2, amended: every per-token probability is obtained from a masked copy of the
  tokenized sentence. For an interior position \<open>i\<close> the forward call shows the model the
  sentence with the tokens at positions \<open>i .. n - 2\<close> replaced by \<open>[MASK]\<close>, the backwards
  call the sentence with the tokens at positions \<open>1 .. i\<close> replaced; all other tokens are
  left intact, and the probabilities are the softmax of the model's prediction at
  position \<open>i\<close>.
\<close>

theorem directional_masking:
  assumes "r < length (heap s)" and "bert_ok B V" and "verbose \<longrightarrow> 5 \<le> V"
    and "1 \<le> i" and "i + 1 < length (deref s r)"
  shows "(let s' = snd (get_directional_prob B softmax r (int i) ''forward'' verbose s);
              shown = deref s' (length (heap s))
          in length shown = length (deref s r)
             \<and> (\<forall>j < length shown.
                   shown ! j = (if i \<le> j \<and> j + 2 \<le> length shown then MASK_TOKEN
                                else deref s r ! j))
             \<and> model_calls s' = model_calls s @ [convert_tokens_to_ids B shown]
             \<and> fst (get_directional_prob B softmax r (int i) ''forward'' verbose s) =
                 Inr (softmax (model B (convert_tokens_to_ids B shown) ! i)))
       \<and> (let s' = snd (get_directional_prob B softmax r (int i) ''backwards'' verbose s);
              shown = deref s' (length (heap s))
          in length shown = length (deref s r)
             \<and> (\<forall>j < length shown.
                   shown ! j = (if 1 \<le> j \<and> j \<le> i then MASK_TOKEN else deref s r ! j))
             \<and> model_calls s' = model_calls s @ [convert_tokens_to_ids B shown]
             \<and> fst (get_directional_prob B softmax r (int i) ''backwards'' verbose s) =
                 Inr (softmax (model B (convert_tokens_to_ids B shown) ! i)))"
proof -
  note i = assms(4,5)
  have f: "deref (snd (get_directional_prob B softmax r (int i) ''forward'' verbose s)) (length (heap s))
      = forward_masked (deref s r) i"
    using gdp_shown[OF assms(1)] masked_copy_forward[OF i] by simp
  have b: "deref (snd (get_directional_prob B softmax r (int i) ''backwards'' verbose s)) (length (heap s))
      = backwards_masked (deref s r) i"
    using gdp_shown[OF assms(1)] masked_copy_backwards[OF i] by simp
  have cf: "model_calls (snd (get_directional_prob B softmax r (int i) ''forward'' verbose s)) =
      model_calls s @ [convert_tokens_to_ids B (forward_masked (deref s r) i)]"
    using gdp_calls[OF assms(1), of B softmax "int i" "''forward''" verbose] masked_copy_forward[OF i]
    by simp
  have cb: "model_calls (snd (get_directional_prob B softmax r (int i) ''backwards'' verbose s)) =
      model_calls s @ [convert_tokens_to_ids B (backwards_masked (deref s r) i)]"
    using gdp_calls[OF assms(1), of B softmax "int i" "''backwards''" verbose] masked_copy_backwards[OF i]
    by simp
  have vf: "fst (get_directional_prob B softmax r (int i) ''forward'' verbose s) =
      Inr (softmax (model B (convert_tokens_to_ids B (forward_masked (deref s r) i)) ! i))"
    using gdp_ok[OF assms(1) assms(2) assms(3) i, of "''forward''"] masked_copy_forward[OF i] by simp
  have vb: "fst (get_directional_prob B softmax r (int i) ''backwards'' verbose s) =
      Inr (softmax (model B (convert_tokens_to_ids B (backwards_masked (deref s r) i)) ! i))"
    using gdp_ok[OF assms(1) assms(2) assms(3) i, of "''backwards''"] masked_copy_backwards[OF i] by simp
  show ?thesis
    unfolding Let_def f b cf cb vf vb
    by (simp add: length_forward_masked length_backwards_masked forward_masked_nth
        backwards_masked_nth)
qed

theorem directional_masking_witness:
  "0 < length (heap kids_state) \<and> bert_ok toy_bert 8 \<and> (5::nat) \<le> 8 \<and> (1::nat) \<le> 1
   \<and> (1::nat) + 1 < length (deref kids_state 0)
   \<and> deref (snd (get_directional_prob toy_bert softmax 0 (int 1) ''forward'' True kids_state)) 1 ! 2
       = MASK_TOKEN
   \<and> deref (snd (get_directional_prob toy_bert softmax 0 (int 1) ''backwards'' True kids_state)) 1 ! 2
       = ''eat''"
proof -
  have r: "0 < length (heap kids_state)" by (simp add: kids_state_def)
  have v: "True \<longrightarrow> (5::nat) \<le> 8" by simp
  have i: "(1::nat) \<le> 1" "(1::nat) + 1 < length (deref kids_state 0)"
    by (simp_all add: kids_state_def deref_def)
  have l: "length (heap kids_state) = 1" "deref kids_state 0 ! 2 = ''eat''"
    "length (deref kids_state 0) = 4"
    by (simp_all add: kids_state_def deref_def)
  from directional_masking[OF r toy_bert_ok v i]
  show ?thesis using r toy_bert_ok i l by (simp add: Let_def)
qed

text \<open>
  C3. For a tokenized input of length \<open>n\<close> the loop of \<open>get_sentence_prob\<close> runs over
  \<open>range(1, n - 1)\<close>, the interior positions \<open>1 .. n - 2\<close> in order, and evaluates the
  model exactly twice at each, first on the forward masking and then on the backwards
  masking of that position: \<open>2 * (n - 2)\<close> evaluations in all, each followed by the one
  softmax of \<open>get_directional_prob\<close>. Every masked copy it makes has the length of the
  input and keeps the input's first and last token.
\<close>

theorem loop_visits_interior_positions:
  assumes "r < length (heap s)" and "bert_ok B V" and "verbose \<longrightarrow> 5 \<le> V"
  shows "py_range 1 (int (length (deref s r)) - 1) = map int [1..<length (deref s r) - 1]
       \<and> set [1..<length (deref s r) - 1] = {p. 1 \<le> p \<and> p + 2 \<le> length (deref s r)}
       \<and> model_calls (snd (sentence_log_probs B r verbose s)) =
           model_calls s @
           concat (map (\<lambda>p. [convert_tokens_to_ids B (forward_masked (deref s r) p),
                              convert_tokens_to_ids B (backwards_masked (deref s r) p)])
                     [1..<length (deref s r) - 1])
       \<and> length (model_calls (snd (sentence_log_probs B r verbose s))) =
           length (model_calls s) + 2 * (length (deref s r) - 2)
       \<and> heap (snd (sentence_log_probs B r verbose s)) =
           heap s @
           concat (map (\<lambda>p. [forward_masked (deref s r) p, backwards_masked (deref s r) p])
                     [1..<length (deref s r) - 1])
       \<and> (\<forall>shown \<in> set (drop (length (heap s)) (heap (snd (sentence_log_probs B r verbose s)))).
             length shown = length (deref s r)
             \<and> shown ! 0 = deref s r ! 0
             \<and> shown ! (length (deref s r) - 1) = deref s r ! (length (deref s r) - 1))"
proof -
  let ?toks = "deref s r" and ?s' = "snd (sentence_log_probs B r verbose s)"
  note ok = sentence_log_probs_ok[OF assms refl]
  have c: "model_calls ?s' = model_calls s @
           concat (map (\<lambda>p. [convert_tokens_to_ids B (forward_masked ?toks p),
                              convert_tokens_to_ids B (backwards_masked ?toks p)])
                     [1..<length ?toks - 1])"
    using ok by simp
  have h: "heap ?s' = heap s @
           concat (map (\<lambda>p. [forward_masked ?toks p, backwards_masked ?toks p])
                     [1..<length ?toks - 1])"
    using ok by simp
  have len: "\<And>f :: nat \<Rightarrow> 'a. \<And>g. length (concat (map (\<lambda>p. [f p, g p]) [1..<length ?toks - 1])) =
      2 * (length ?toks - 2)"
    by (simp add: length_concat comp_def sum_list_triv)
  have n: "length (model_calls ?s') = length (model_calls s) + 2 * (length ?toks - 2)"
    unfolding c using len by simp
  have keep: "\<forall>shown \<in> set (drop (length (heap s)) (heap ?s')).
             length shown = length ?toks
             \<and> shown ! 0 = ?toks ! 0
             \<and> shown ! (length ?toks - 1) = ?toks ! (length ?toks - 1)"
  proof
    fix shown
    assume "shown \<in> set (drop (length (heap s)) (heap ?s'))"
    then obtain p where p: "1 \<le> p" "p + 1 < length ?toks"
      and sh: "shown = forward_masked ?toks p \<or> shown = backwards_masked ?toks p"
      unfolding h by auto
    have z: "0 < length ?toks" "length ?toks - 1 < length ?toks" using p by linarith+
    have e: "\<not> (length ?toks - 1 + 2 \<le> length ?toks)" "\<not> (length ?toks - 1 \<le> p)"
      using p by linarith+
    from sh show "length shown = length ?toks
             \<and> shown ! 0 = ?toks ! 0
             \<and> shown ! (length ?toks - 1) = ?toks ! (length ?toks - 1)"
    proof
      assume "shown = forward_masked ?toks p"
      then show ?thesis
        using p forward_masked_nth[OF z(1), of p] forward_masked_nth[OF z(2), of p] e
        by (simp add: length_forward_masked)
    next
      assume "shown = backwards_masked ?toks p"
      then show ?thesis
        using p backwards_masked_nth[OF z(1), of p] backwards_masked_nth[OF z(2), of p] e
        by (simp add: length_backwards_masked)
    qed
  qed
  have rng: "py_range 1 (int (length ?toks) - 1) = map int [1..<length ?toks - 1]"
    by (rule py_range_nat)
  have pos: "set [1..<length ?toks - 1] = {p. 1 \<le> p \<and> p + 2 \<le> length ?toks}"
    by auto
  from rng pos c n h keep show ?thesis by (intro conjI)
qed

theorem loop_visits_interior_positions_witness:
  "0 < length (heap kids_state) \<and> bert_ok toy_bert 8 \<and> (5::nat) \<le> 8
   \<and> model_calls (snd (sentence_log_probs toy_bert 0 True kids_state)) =
       [[2, 4, 4, 3], [2, 4, 6, 3], [2, 5, 4, 3], [2, 4, 4, 3]]
   \<and> drop 1 (heap (snd (sentence_log_probs toy_bert 0 True kids_state))) =
       [[''[CLS]'', ''[MASK]'', ''[MASK]'', ''[SEP]''], [''[CLS]'', ''[MASK]'', ''eat'', ''[SEP]''],
        [''[CLS]'', ''kids'', ''[MASK]'', ''[SEP]''], [''[CLS]'', ''[MASK]'', ''[MASK]'', ''[SEP]'']]"
proof -
  have r: "0 < length (heap kids_state)" by (simp add: kids_state_def)
  have v: "True \<longrightarrow> (5::nat) \<le> 8" by simp
  have ps: "[1..<length (deref kids_state 0) - 1] = [1, 2]"
    by (simp add: kids_state_def deref_def upt_conv_Cons)
  have m: "forward_masked (deref kids_state 0) (Suc 0) = [''[CLS]'', ''[MASK]'', ''[MASK]'', ''[SEP]'']"
    "backwards_masked (deref kids_state 0) (Suc 0) = [''[CLS]'', ''[MASK]'', ''eat'', ''[SEP]'']"
    "forward_masked (deref kids_state 0) 2 = [''[CLS]'', ''kids'', ''[MASK]'', ''[SEP]'']"
    "backwards_masked (deref kids_state 0) 2 = [''[CLS]'', ''[MASK]'', ''[MASK]'', ''[SEP]'']"
    by (simp_all add: forward_masked_def backwards_masked_def kids_state_def deref_def
        upt_conv_Cons MASK_TOKEN_def)
  have ids: "convert_tokens_to_ids toy_bert [''[CLS]'', ''[MASK]'', ''[MASK]'', ''[SEP]''] = [2, 4, 4, 3]"
    "convert_tokens_to_ids toy_bert [''[CLS]'', ''[MASK]'', ''eat'', ''[SEP]''] = [2, 4, 6, 3]"
    "convert_tokens_to_ids toy_bert [''[CLS]'', ''kids'', ''[MASK]'', ''[SEP]''] = [2, 5, 4, 3]"
    by (simp_all add: convert_tokens_to_ids_def toy_bert_def toy_token_to_id_def toy_vocab_def)
  have h: "heap kids_state = [[''[CLS]'', ''kids'', ''eat'', ''[SEP]'']]" "model_calls kids_state = []"
    by (simp_all add: kids_state_def)
  note th = loop_visits_interior_positions[OF r toy_bert_ok v]
  have c: "model_calls (snd (sentence_log_probs toy_bert 0 True kids_state)) =
      [[2, 4, 4, 3], [2, 4, 6, 3], [2, 5, 4, 3], [2, 4, 4, 3]]"
    unfolding th[THEN conjunct2, THEN conjunct2, THEN conjunct1] ps by (simp add: m ids h)
  have d: "drop 1 (heap (snd (sentence_log_probs toy_bert 0 True kids_state))) =
       [[''[CLS]'', ''[MASK]'', ''[MASK]'', ''[SEP]''], [''[CLS]'', ''[MASK]'', ''eat'', ''[SEP]''],
        [''[CLS]'', ''kids'', ''[MASK]'', ''[SEP]''], [''[CLS]'', ''[MASK]'', ''[MASK]'', ''[SEP]'']]"
    unfolding th[THEN conjunct2, THEN conjunct2, THEN conjunct2, THEN conjunct2, THEN conjunct1] ps
    by (simp add: m h)
  show ?thesis using r toy_bert_ok c d by simp
qed

text \<open>
  C4. For each direction, the log-probability that \<open>get_sentence_prob\<close> accumulates is the
  sum, over the interior positions \<open>1 .. n - 2\<close> of the tokenized input, of \<open>log10\<close> of the
  probability the model gives to the original token at that position. Here
  \<open>tokenized_input\<close> is what the preprocessing of \<open>get_sentence_prob\<close> produced, the model
  has the shape of a masked language model over \<open>V\<close> entries, and the verbose listing of
  the five best predictions has five entries to list.
\<close>

theorem accumulated_log_probs_are_sums:
  assumes "bert_ok B V" and "verbose \<longrightarrow> 5 \<le> V"
    and "preprocess B sentence s0 = (Inr tokenized_input, s)"
  shows "fst (sentence_log_probs B tokenized_input verbose s) =
     Inr ((\<Sum>p\<leftarrow>[1..<length (deref s tokenized_input) - 1].
             log 10 (token_prob B (forward_masked (deref s tokenized_input) p)
                        (deref s tokenized_input) p)),
          (\<Sum>p\<leftarrow>[1..<length (deref s tokenized_input) - 1].
             log 10 (token_prob B (backwards_masked (deref s tokenized_input) p)
                        (deref s tokenized_input) p)))"
  using sentence_log_probs_ok[OF preprocess_Inr(2)[OF assms(3)] assms(1) assms(2) refl]
  by simp

theorem accumulated_log_probs_are_sums_witness:
  "bert_ok toy_bert 8 \<and> (5::nat) \<le> 8
   \<and> preprocess toy_bert ''kids eat'' empty_state = (Inr 0, kids_state)
   \<and> fst (sentence_log_probs toy_bert 0 True kids_state) =
     Inr ((\<Sum>p\<leftarrow>[1..<length (deref kids_state 0) - 1].
             log 10 (token_prob toy_bert (forward_masked (deref kids_state 0) p)
                        (deref kids_state 0) p)),
          (\<Sum>p\<leftarrow>[1..<length (deref kids_state 0) - 1].
             log 10 (token_prob toy_bert (backwards_masked (deref kids_state 0) p)
                        (deref kids_state 0) p)))"
proof -
  have v: "True \<longrightarrow> (5::nat) \<le> 8" by simp
  from accumulated_log_probs_are_sums[OF toy_bert_ok v toy_preprocess_kids]
  show ?thesis using toy_bert_ok toy_preprocess_kids by simp
qed

text \<open>
  C5. The probability of the token at an interior position \<open>i\<close> is read as follows:
  \<open>get_directional_prob\<close> evaluates the model on the ids of its masked copy, applies
  softmax to the row of the prediction at position \<open>i\<close> and returns that vector; the loop
  of \<open>get_sentence_prob\<close> indexes the vector of each direction with the vocabulary id of
  the original token at \<open>i\<close> and takes \<open>log10\<close>.
\<close>

theorem token_probability_is_indexed_softmax:
  assumes "r < length (heap s)" and "bert_ok B V" and "verbose \<longrightarrow> 5 \<le> V"
    and "1 \<le> i" and "i + 1 < length (deref s r)"
    and "direction = ''forward'' \<or> direction = ''backwards''"
  shows "model_calls (snd (get_directional_prob B softmax r (int i) direction verbose s)) =
           model_calls s @
           [convert_tokens_to_ids B
              (deref (snd (get_directional_prob B softmax r (int i) direction verbose s))
                 (length (heap s)))]
       \<and> fst (get_directional_prob B softmax r (int i) direction verbose s) =
           Inr (softmax
                  (model B (last (model_calls
                      (snd (get_directional_prob B softmax r (int i) direction verbose s)))) ! i))
       \<and> fst (score_position B softmax r (convert_tokens_to_ids B (deref s r)) verbose (int i) s) =
           Inr (log 10 (softmax (model B (convert_tokens_to_ids B (forward_masked (deref s r) i)) ! i)
                          ! token_to_id B (deref s r ! i)),
                log 10 (softmax (model B (convert_tokens_to_ids B (backwards_masked (deref s r) i)) ! i)
                          ! token_to_id B (deref s r ! i)))"
proof -
  have d: "direction = ''backwards'' \<or> direction = ''forward''" using assms(6) by blast
  have c: "model_calls (snd (get_directional_prob B softmax r (int i) direction verbose s)) =
      model_calls s @ [convert_tokens_to_ids B (masked_copy direction (deref s r) (int i))]"
    using gdp_calls[OF assms(1), of B softmax "int i" direction verbose] d by simp
  have sh: "deref (snd (get_directional_prob B softmax r (int i) direction verbose s)) (length (heap s))
      = masked_copy direction (deref s r) (int i)"
    by (rule gdp_shown[OF assms(1)])
  have v: "fst (get_directional_prob B softmax r (int i) direction verbose s) =
      Inr (softmax (model B (convert_tokens_to_ids B (masked_copy direction (deref s r) (int i))) ! i))"
    by (rule gdp_ok[OF assms(1) assms(2) assms(3) assms(4) assms(5) d])
  have sp: "fst (score_position B softmax r (convert_tokens_to_ids B (deref s r)) verbose (int i) s) =
           Inr (log 10 (token_prob B (forward_masked (deref s r) i) (deref s r) i),
                log 10 (token_prob B (backwards_masked (deref s r) i) (deref s r) i))"
    by (rule score_position_ok(1)[OF assms(1) assms(2) assms(3) assms(4) assms(5)])
  show ?thesis
    unfolding sh c v sp by (simp add: token_prob_def)
qed

theorem token_probability_is_indexed_softmax_witness:
  "0 < length (heap kids_state) \<and> bert_ok toy_bert 8 \<and> (5::nat) \<le> 8 \<and> (1::nat) \<le> 1
   \<and> (1::nat) + 1 < length (deref kids_state 0)
   \<and> fst (get_directional_prob toy_bert softmax 0 (int 1) ''forward'' True kids_state) =
       Inr (softmax (model toy_bert (last (model_calls
              (snd (get_directional_prob toy_bert softmax 0 (int 1) ''forward'' True kids_state)))) ! 1))
   \<and> fst (score_position toy_bert softmax 0 (convert_tokens_to_ids toy_bert (deref kids_state 0))
            True (int 1) kids_state) =
       Inr (log 10 (softmax (model toy_bert (convert_tokens_to_ids toy_bert
                       (forward_masked (deref kids_state 0) 1)) ! 1)
                      ! token_to_id toy_bert (deref kids_state 0 ! 1)),
            log 10 (softmax (model toy_bert (convert_tokens_to_ids toy_bert
                       (backwards_masked (deref kids_state 0) 1)) ! 1)
                      ! token_to_id toy_bert (deref kids_state 0 ! 1)))"
proof -
  have r: "0 < length (heap kids_state)" by (simp add: kids_state_def)
  have v: "True \<longrightarrow> (5::nat) \<le> 8" by simp
  have i: "(1::nat) \<le> 1" "(1::nat) + 1 < length (deref kids_state 0)"
    by (simp_all add: kids_state_def deref_def)
  have d: "''forward'' = ''forward'' \<or> ''forward'' = ''backwards''" by simp
  from token_probability_is_indexed_softmax[OF r toy_bert_ok v i d]
  show ?thesis using r toy_bert_ok i by simp
qed

text \<open>
  C6. The accumulation never takes the logarithm of a value that is not strictly positive,
  and the softmax never divides by zero: whatever the sentence, the tokenizer and the
  model, \<open>get_sentence_prob\<close> does not end in the undefined-logarithm outcome, every
  component of a softmax output is strictly positive, and the denominator of the softmax
  of a vector that has components is strictly positive.
\<close>

theorem log_of_zero_unreachable:
  "fst (get_sentence_prob B sentence verbose s) \<noteq> Inl LogOfNonPositive
   \<and> (\<forall>j p. py_index (softmax xs) j = Inr p \<longrightarrow> 0 < p \<and> np_log10 p = Inr (log 10 p))
   \<and> (xs \<noteq> [] \<longrightarrow> 0 < softmax_denominator xs)"
  using get_sentence_prob_no_log_error py_index_softmax_pos np_log10_softmax
    softmax_denominator_pos by blast

theorem log_of_zero_unreachable_witness:
  "[0, 0] \<noteq> ([] :: real list) \<and> 0 < softmax_denominator [0, 0]
   \<and> py_index (softmax [0, 0]) 1 = Inr (1 / 2) \<and> np_log10 (1 / 2) = Inr (log 10 (1 / 2))
   \<and> fst (get_sentence_prob toy_bert ''kids eat'' False empty_state) \<noteq> Inl LogOfNonPositive"
proof -
  have ne: "[0, 0] \<noteq> ([] :: real list)" by simp
  have ix: "py_index (softmax [0, 0]) 1 = Inr (1 / 2)"
    by (simp add: py_index_def softmax_def softmax_denominator_def)
  from log_of_zero_unreachable[of toy_bert "''kids eat''" False empty_state "[0, 0]"]
  show ?thesis using ne ix by blast
qed

text \<open>
  C7. With the tokenizer and the model fixed, the value \<open>get_sentence_prob\<close> returns for a
  sentence does not depend on the state it is run in: neither on the lists that already
  exist, nor on what was printed before, nor on the earlier calls of the model.
\<close>

theorem get_sentence_prob_deterministic:
  "fst (get_sentence_prob B sentence verbose s1) = fst (get_sentence_prob B sentence verbose s2)"
  by (rule get_sentence_prob_indep)

text \<open>
  C8 at \<open>k = 0\<close>: for the probabilities \<open>[0.6, 0.4]\<close> the first component holds both
  tokens, not none. \<open>-k\<close> is \<open>0\<close>, so \<open>np.argpartition(probs, 0)[0:]\<close> is the whole
  permutation.
\<close>

theorem top_zero_returns_every_token:
  "fst (get_top_predictions toy_bert [0.6, 0.4] 0 0.01 empty_state) =
     Inr ([''[PAD]'', ''[UNK]''], [''[PAD]'', ''[UNK]''])"
  by (simp add: get_top_predictions_def top_sorted_indexes_def argpartition_def argsort_def
      slice_from_def slice_bound_def take_indices_def np_where_gt_def convert_ids_to_tokens_def
      upt_conv_Cons Let_def toy_bert_def toy_vocab_def)

text \<open>
  C9. The padding cell completes exactly when there is a sentence and every encoded
  sentence contains the id of \<open>[MASK]\<close>. After it, every row of \<open>padded_input\<close> has the
  length \<open>max_len\<close>, the largest length of the original id lists; each row is its id list
  followed by zeros; \<open>attention_mask\<close> has the same shape and holds \<open>1\<close> exactly where the
  padded id is not zero and \<open>0\<close> elsewhere, so it is \<open>0\<close> at every padding position.
\<close>

theorem padding_invariant:
  "((\<exists>batch. pad_sentences B sentences = Inr batch) \<longleftrightarrow>
      sentences \<noteq> [] \<and> (\<forall>s \<in> set sentences. token_to_id B MASK \<in> set (encode B s)))
   \<and> (\<forall>batch. pad_sentences B sentences = Inr batch \<longrightarrow>
        input_ids batch = map (encode B) sentences
        \<and> max_len batch = Max (set (map length (input_ids batch)))
        \<and> length (padded_input batch) = length (input_ids batch)
        \<and> length (attention_mask batch) = length (input_ids batch)
        \<and> (\<forall>k < length (input_ids batch).
              length (padded_input batch ! k) = max_len batch
              \<and> length (attention_mask batch ! k) = max_len batch
              \<and> padded_input batch ! k =
                  input_ids batch ! k @ replicate (max_len batch - length (input_ids batch ! k)) 0
              \<and> (\<forall>c < max_len batch.
                    attention_mask batch ! k ! c = (if padded_input batch ! k ! c \<noteq> 0 then 1 else 0))
              \<and> (\<forall>c. length (input_ids batch ! k) \<le> c \<and> c < max_len batch \<longrightarrow>
                    padded_input batch ! k ! c = 0 \<and> attention_mask batch ! k ! c = 0)))"
proof (intro conjI allI impI)
  show "(\<exists>batch. pad_sentences B sentences = Inr batch) \<longleftrightarrow>
      sentences \<noteq> [] \<and> (\<forall>s \<in> set sentences. token_to_id B MASK \<in> set (encode B s))"
  proof
    assume "\<exists>batch. pad_sentences B sentences = Inr batch"
    then obtain batch where b: "pad_sentences B sentences = Inr batch" ..
    then obtain ps where "mask_positions_of (map (encode B) sentences) (token_to_id B MASK) = Inr ps"
      unfolding pad_sentences_cases[OF refl] by (auto split: sum.splits)
    then have "\<forall>s \<in> set (map (encode B) sentences). token_to_id B MASK \<in> set s"
      using mask_positions_of_Inr by blast
    then show "sentences \<noteq> [] \<and> (\<forall>s \<in> set sentences. token_to_id B MASK \<in> set (encode B s))"
      using pad_sentences_Inr(2)[OF b] by simp
  next
    assume a: "sentences \<noteq> [] \<and> (\<forall>s \<in> set sentences. token_to_id B MASK \<in> set (encode B s))"
    then have "\<forall>s \<in> set (map (encode B) sentences). token_to_id B MASK \<in> set s" by simp
    then obtain ps where ps: "mask_positions_of (map (encode B) sentences) (token_to_id B MASK) = Inr ps"
      using mask_positions_of_Inr by blast
    from a have "map length (map (encode B) sentences) \<noteq> []" by simp
    then obtain m where m: "py_max (map length (map (encode B) sentences)) = Inr m"
      unfolding py_max_Inr by blast
    show "\<exists>batch. pad_sentences B sentences = Inr batch"
      unfolding pad_sentences_cases[OF refl] ps m by simp
  qed
next
  fix batch
  assume b: "pad_sentences B sentences = Inr batch"
  note f = pad_sentences_Inr[OF b]
  show "input_ids batch = map (encode B) sentences" by (rule f(1))
  show "max_len batch = Max (set (map length (input_ids batch)))" by (rule f(3))
  show "length (padded_input batch) = length (input_ids batch)" by (simp add: f(4))
  show "length (attention_mask batch) = length (input_ids batch)" by (simp add: f(5) f(4))
  fix k
  assume k: "k < length (input_ids batch)"
  let ?row = "input_ids batch ! k"
  have "length ?row \<in> set (map length (input_ids batch))" using k by simp
  then have le: "length ?row \<le> max_len batch" unfolding f(3) by (intro Max_ge) simp_all
  have p: "padded_input batch ! k = ?row @ replicate (max_len batch - length ?row) 0"
    using k by (simp add: f(4))
  have lp: "length (padded_input batch ! k) = max_len batch" using le by (simp add: p)
  have a: "attention_mask batch ! k = map (\<lambda>x. if x \<noteq> 0 then 1 else 0) (padded_input batch ! k)"
    using k by (simp add: f(5) f(4))
  show "length (padded_input batch ! k) = max_len batch" by (rule lp)
  show "length (attention_mask batch ! k) = max_len batch" by (simp add: a lp)
  show "padded_input batch ! k = ?row @ replicate (max_len batch - length ?row) 0" by (rule p)
  {
    fix c
    assume c: "c < max_len batch"
    then show "attention_mask batch ! k ! c = (if padded_input batch ! k ! c \<noteq> 0 then 1 else 0)"
      using lp by (simp add: a)
  }
  {
    fix c
    assume c: "length ?row \<le> c \<and> c < max_len batch"
    then have "c - length ?row < max_len batch - length ?row" by linarith
    with c have z: "padded_input batch ! k ! c = 0" by (simp add: p nth_append)
    moreover have "attention_mask batch ! k ! c = (if padded_input batch ! k ! c \<noteq> 0 then 1 else 0)"
      using c lp by (simp add: a)
    ultimately show "padded_input batch ! k ! c = 0" "attention_mask batch ! k ! c = 0" by simp_all
  }
qed


theorem padding_invariant_witness:
  "pad_sentences toy_bert [''kids [MASK]'', ''kids eat [MASK] candy''] = Inr toy_batch
   \<and> (0::nat) < length (input_ids toy_batch)
   \<and> length (padded_input toy_batch ! 0) = max_len toy_batch
   \<and> length (input_ids toy_batch ! 0) \<le> (4::nat) \<and> (4::nat) < max_len toy_batch
   \<and> padded_input toy_batch ! 0 ! 4 = 0
   \<and> attention_mask toy_batch ! 0 ! 4 = 0
   \<and> attention_mask toy_batch ! 0 ! 2 = (if padded_input toy_batch ! 0 ! 2 \<noteq> 0 then 1 else 0)"
proof -
  note inv = padding_invariant[of toy_bert "[''kids [MASK]'', ''kids eat [MASK] candy'']",
      THEN conjunct2, rule_format, OF toy_pad_sentences]
  have k: "(0::nat) < length (input_ids toy_batch)" by (simp add: toy_batch_def)
  have c: "length (input_ids toy_batch ! 0) \<le> (4::nat) \<and> (4::nat) < max_len toy_batch"
    by (simp add: toy_batch_def)
  have c2: "(2::nat) < max_len toy_batch" by (simp add: toy_batch_def)
  note row = inv[THEN conjunct2, THEN conjunct2, THEN conjunct2, THEN conjunct2, rule_format, OF k]
  have l: "length (padded_input toy_batch ! 0) = max_len toy_batch"
    using row by blast
  have z: "padded_input toy_batch ! 0 ! 4 = 0 \<and> attention_mask toy_batch ! 0 ! 4 = 0"
    using row c by blast
  have m: "attention_mask toy_batch ! 0 ! 2 = (if padded_input toy_batch ! 0 ! 2 \<noteq> 0 then 1 else 0)"
    using row c2 by blast
  from toy_pad_sentences k l c z m show ?thesis by blast
qed

lemma get_directional_prob_frame:
  assumes "r < length (heap s)"
  shows "deref (snd (get_directional_prob B sm r i d v s)) r = deref s r"
    and "take (length (heap s)) (heap (snd (get_directional_prob B sm r i d v s))) = heap s"
    and "deref (snd (get_directional_prob B sm r i d v s)) (length (heap s)) =
           masked_copy d (deref s r) i"
    and "d \<noteq> ''backwards'' \<Longrightarrow> d \<noteq> ''forward'' \<Longrightarrow> masked_copy d (deref s r) i = deref s r"
  using gdp_deref(1)[OF assms] gdp_heap[OF assms] gdp_shown[OF assms]
  by (simp_all add: masked_copy_def)

lemma valid_direction_probability_vector:
  assumes r: "r < length (heap s)" and ok: "bert_ok B V" and V: "0 < V" and v: "v \<longrightarrow> 5 \<le> V"
    and i: "1 \<le> i" "i + 1 < length (deref s r)"
    and d: "d = ''forward'' \<or> d = ''backwards''"
  shows "\<exists>probs. fst (get_directional_prob B softmax r (int i) d v s) = Inr probs
           \<and> (\<forall>p \<in> set probs. 0 < p) \<and> sum_list probs = 1"
proof -
  let ?toks = "deref s r"
  let ?ids = "convert_tokens_to_ids B (masked_copy d ?toks (int i))"
  have d': "d = ''backwards'' \<or> d = ''forward''" using d by blast
  have val: "fst (get_directional_prob B softmax r (int i) d v s) = Inr (softmax (model B ?ids ! i))"
    by (rule gdp_ok[OF r ok v i d'])
  have "length (model B ?ids) = length ?toks"
    using ok length_masked_copy[OF i d'] by (simp add: bert_ok_def convert_tokens_to_ids_def)
  then have "model B ?ids ! i \<in> set (model B ?ids)" using i(2) by simp
  then have "length (model B ?ids ! i) = V" using ok by (simp add: bert_ok_def)
  then have ne: "model B ?ids ! i \<noteq> []" using V by auto
  have "(\<forall>p \<in> set (softmax (model B ?ids ! i)). 0 < p) \<and> sum_list (softmax (model B ?ids ! i)) = 1"
    using softmax_pos sum_list_softmax[OF ne] by blast
  then show ?thesis using val by blast
qed

lemma invalid_direction_returns:
  assumes r: "r < length (heap s)" and ok: "bert_ok B V" and v: "v \<longrightarrow> 5 \<le> V"
    and i: "i < length (deref s r)"
    and d: "d \<noteq> ''forward''" "d \<noteq> ''backwards''"
  shows "fst (get_directional_prob B softmax r (int i) d v s) =
           Inr (softmax (model B (convert_tokens_to_ids B (deref s r)) ! i))"
    and "model_calls (snd (get_directional_prob B softmax r (int i) d v s)) =
           model_calls s @ [convert_tokens_to_ids B (deref s r)]"
    and "exit_now (snd (get_directional_prob B softmax r (int i) d v s))"
proof -
  let ?ids = "convert_tokens_to_ids B (deref s r)"
  have m: "masked_copy d (deref s r) (int i) = deref s r"
    using d by (simp add: masked_copy_def)
  have len: "length (model B ?ids) = length (deref s r)"
    using ok by (simp add: bert_ok_def convert_tokens_to_ids_def)
  then have idx: "py_index (model B ?ids) (int i) = Inr (model B ?ids ! i)"
    using i by (simp add: py_index_def)
  have "model B ?ids ! i \<in> set (model B ?ids)" using len i by simp
  then have "length (model B ?ids ! i) = V" using ok by (simp add: bert_ok_def)
  then have "v \<Longrightarrow> \<exists>idx. top_sorted_indexes (softmax (model B ?ids ! i)) 5 = Inr idx"
    using v top_sorted_indexes_5[of "softmax (model B ?ids ! i)"] by (simp add: length_softmax)
  then show "fst (get_directional_prob B softmax r (int i) d v s) = Inr (softmax (model B ?ids ! i))"
    using idx by (auto simp add: gdp_fst[OF r] m)
  show "model_calls (snd (get_directional_prob B softmax r (int i) d v s)) = model_calls s @ [?ids]"
    by (simp add: gdp_calls[OF r] m)
  show "exit_now (snd (get_directional_prob B softmax r (int i) d v s))"
    using d by (simp add: gdp_exit_now)
qed

text \<open>
  C10 at a direction that is neither \<open>forward\<close> nor \<open>backwards\<close>: for
  \<open>[CLS] kids eat [SEP]\<close>, \<open>i = 1\<close> and the direction \<open>sideways\<close> the call prints the error
  message and asks the shell to exit, and then it does return a vector: it evaluates the
  model on the ids of the unmasked copy, \<open>[2, 5, 6, 3]\<close>, and returns the softmax of row
  \<open>1\<close>. The list the caller passed is unchanged, as it is for the two valid directions.
\<close>

theorem invalid_direction_falls_through:
  "fst (get_directional_prob toy_bert softmax 0 1 ''sideways'' False kids_state) =
     Inr (softmax (model toy_bert [2, 5, 6, 3] ! 1))
   \<and> model_calls (snd (get_directional_prob toy_bert softmax 0 1 ''sideways'' False kids_state)) =
       [[2, 5, 6, 3]]
   \<and> stdout (snd (get_directional_prob toy_bert softmax 0 1 ''sideways'' False kids_state)) =
       [Print_text direction_message]
   \<and> exit_now (snd (get_directional_prob toy_bert softmax 0 1 ''sideways'' False kids_state))
   \<and> deref (snd (get_directional_prob toy_bert softmax 0 1 ''sideways'' False kids_state)) 0 =
       [''[CLS]'', ''kids'', ''eat'', ''[SEP]'']
   \<and> deref (snd (get_directional_prob toy_bert softmax 0 1 ''sideways'' False kids_state)) 1 =
       [''[CLS]'', ''kids'', ''eat'', ''[SEP]'']"
proof -
  have r: "0 < length (heap kids_state)" by (simp add: kids_state_def)
  have v: "False \<longrightarrow> (5::nat) \<le> 8" by simp
  have toks: "deref kids_state 0 = [''[CLS]'', ''kids'', ''eat'', ''[SEP]'']"
    by (simp add: kids_state_def deref_def)
  have i: "(1::nat) < length (deref kids_state 0)" by (simp add: toks)
  have d: "''sideways'' \<noteq> ''forward''" "''sideways'' \<noteq> ''backwards''" by simp_all
  have ids: "convert_tokens_to_ids toy_bert (deref kids_state 0) = [2, 5, 6, 3]"
    by (simp add: toks convert_tokens_to_ids_def toy_bert_def toy_token_to_id_def toy_vocab_def)
  have st: "stdout kids_state = []" "model_calls kids_state = []" "length (heap kids_state) = 1"
    by (simp_all add: kids_state_def)
  note ret = invalid_direction_returns[OF r toy_bert_ok v i d]
  note fr = get_directional_prob_frame[OF r]
  have a: "fst (get_directional_prob toy_bert softmax 0 1 ''sideways'' False kids_state) =
     Inr (softmax (model toy_bert [2, 5, 6, 3] ! 1))"
    using ret(1) by (simp add: ids)
  have b: "model_calls (snd (get_directional_prob toy_bert softmax 0 1 ''sideways'' False kids_state)) =
       [[2, 5, 6, 3]]"
    using ret(2) by (simp add: ids st)
  have c: "stdout (snd (get_directional_prob toy_bert softmax 0 1 ''sideways'' False kids_state)) =
       [Print_text direction_message]"
    using gdp_stdout_quiet[OF r, of toy_bert softmax 1 "''sideways''"] by (simp add: st)
  have e: "exit_now (snd (get_directional_prob toy_bert softmax 0 1 ''sideways'' False kids_state))"
    using ret(3) by simp
  have f: "deref (snd (get_directional_prob toy_bert softmax 0 1 ''sideways'' False kids_state)) 0 =
       [''[CLS]'', ''kids'', ''eat'', ''[SEP]'']"
    using fr(1) by (simp add: toks)
  have g: "deref (snd (get_directional_prob toy_bert softmax 0 1 ''sideways'' False kids_state)) 1 =
       [''[CLS]'', ''kids'', ''eat'', ''[SEP]'']"
    using fr(3) fr(4)[OF d(2) d(1)] by (simp add: toks st)
  from a b c e f g show ?thesis by (intro conjI)
qed

end
